theory Spec2Isabelle
  imports Complex_Main "HOL-Library.Sublist" "HOL-Library.Log_Nat"
begin

section \<open>JavaScript numbers\<close>

text \<open>
  The server (\<^verbatim>\<open>server.js\<close>) computes with JavaScript numbers, which are IEEE 754
  binary64 values. A number is modelled as \<^verbatim>\<open>NaN\<close>, one of the two infinities, or a
  finite value, given as the rational it denotes; \<^verbatim>\<open>-0\<close> is identified with \<^verbatim>\<open>0\<close>.
  An arithmetic operation computes the exact result and rounds it to the nearest binary64
  value, ties to even, as IEEE 754 prescribes. The numbers of a run are binary64 values:
  the inputs are, and every operation rounds. A statement about all finite values
  \<open>Fin x\<close> covers them.

  \<open>fl x\<close> is the rounding of the rational \<open>x\<close> to a significand of 53 bits, with the
  exponent bounded below (subnormal numbers have the spacing \<open>2\<^sup>-\<^sup>1\<^sup>0\<^sup>7\<^sup>4\<close>);
  \<open>d64\<close> adds the overflow to an infinity, for a rounded value of \<open>2\<^sup>1\<^sup>0\<^sup>2\<^sup>4\<close> or more.
\<close>

definition pow2 :: "int \<Rightarrow> rat" where
  "pow2 e = (if 0 \<le> e then 2 ^ nat e else 1 / 2 ^ nat (- e))"

text \<open>\<open>ilog2 x\<close> is the integer part of the binary logarithm of a positive \<open>x\<close>.\<close>

definition ilog2 :: "rat \<Rightarrow> int" where
  "ilog2 x = (if 1 \<le> x then bitlen \<lfloor>x\<rfloor> - 1 else - bitlen (\<lceil>1 / x\<rceil> - 1))"

text \<open>Rounding to the nearest integer, ties to the even one.\<close>

definition rne :: "rat \<Rightarrow> int" where
  "rne x =
     (let f = \<lfloor>x\<rfloor>; d = x - of_int f
      in if d < 1 / 2 then f else if 1 / 2 < d then f + 1 else if even f then f else f + 1)"

definition fl :: "rat \<Rightarrow> rat" where
  "fl x =
     (if x = 0 then 0
      else (let e = max (ilog2 \<bar>x\<bar>) (- 1022) - 52 in of_int (rne (x / pow2 e)) * pow2 e))"

datatype jsnum = NaN | Fin rat | PInf | NInf

definition d64 :: "rat \<Rightarrow> jsnum" where
  "d64 x =
     (let r = fl x
      in if r = 0 then Fin 0
         else if 1024 \<le> ilog2 \<bar>r\<bar> then (if 0 < r then PInf else NInf)
         else Fin r)"

text \<open>A decimal literal of the source denotes the binary64 value nearest to it.\<close>

definition lit :: "rat \<Rightarrow> jsnum" where
  "lit x = d64 x"

fun jneg :: "jsnum \<Rightarrow> jsnum" where
  "jneg NaN = NaN"
| "jneg (Fin a) = Fin (- a)"
| "jneg PInf = NInf"
| "jneg NInf = PInf"

text \<open>\<^verbatim>\<open>x + y\<close> on numbers.\<close>

fun jadd :: "jsnum \<Rightarrow> jsnum \<Rightarrow> jsnum" where
  "jadd (Fin a) (Fin b) = d64 (a + b)"
| "jadd NaN _ = NaN"
| "jadd _ NaN = NaN"
| "jadd PInf NInf = NaN"
| "jadd NInf PInf = NaN"
| "jadd PInf _ = PInf"
| "jadd NInf _ = NInf"
| "jadd (Fin a) y = y"

text \<open>\<^verbatim>\<open>x - y\<close> on numbers.\<close>

definition jsub :: "jsnum \<Rightarrow> jsnum \<Rightarrow> jsnum" where
  "jsub x y = jadd x (jneg y)"

text \<open>\<^verbatim>\<open>x * y\<close> on numbers.\<close>

fun jmul :: "jsnum \<Rightarrow> jsnum \<Rightarrow> jsnum" where
  "jmul (Fin a) (Fin b) = d64 (a * b)"
| "jmul NaN _ = NaN"
| "jmul _ NaN = NaN"
| "jmul (Fin a) y = (if a = 0 then NaN else if 0 < a then y else jneg y)"
| "jmul x (Fin b) = (if b = 0 then NaN else if 0 < b then x else jneg x)"
| "jmul PInf y = y"
| "jmul NInf y = jneg y"

text \<open>\<^verbatim>\<open>x / y\<close> on numbers (a zero divisor is \<^verbatim>\<open>+0\<close>).\<close>

fun jdiv :: "jsnum \<Rightarrow> jsnum \<Rightarrow> jsnum" where
  "jdiv (Fin a) (Fin b) =
     (if b = 0 then (if a = 0 then NaN else if 0 < a then PInf else NInf) else d64 (a / b))"
| "jdiv NaN _ = NaN"
| "jdiv _ NaN = NaN"
| "jdiv (Fin a) _ = Fin 0"
| "jdiv x (Fin b) = (if 0 \<le> b then x else jneg x)"
| "jdiv _ _ = NaN"

text \<open>\<^verbatim>\<open>x < y\<close>, \<^verbatim>\<open>x <= y\<close> and \<^verbatim>\<open>x > y\<close>: false as soon as one side is \<^verbatim>\<open>NaN\<close>.\<close>

fun jlt :: "jsnum \<Rightarrow> jsnum \<Rightarrow> bool" where
  "jlt (Fin a) (Fin b) = (a < b)"
| "jlt NaN _ = False"
| "jlt _ NaN = False"
| "jlt NInf y = (y \<noteq> NInf)"
| "jlt x PInf = (x \<noteq> PInf)"
| "jlt _ _ = False"

fun jle :: "jsnum \<Rightarrow> jsnum \<Rightarrow> bool" where
  "jle (Fin a) (Fin b) = (a \<le> b)"
| "jle NaN _ = False"
| "jle _ NaN = False"
| "jle NInf _ = True"
| "jle _ PInf = True"
| "jle _ _ = False"

definition jgt :: "jsnum \<Rightarrow> jsnum \<Rightarrow> bool" where
  "jgt x y = jlt y x"

text \<open>
  \<^verbatim>\<open>Math.floor\<close>, \<^verbatim>\<open>Math.ceil\<close>, \<^verbatim>\<open>Math.round\<close> (halves go up) and
  \<^verbatim>\<open>Math.abs\<close>; their results are exact.
\<close>

fun Math_floor :: "jsnum \<Rightarrow> jsnum" where
  "Math_floor (Fin a) = Fin (of_int \<lfloor>a\<rfloor>)"
| "Math_floor x = x"

fun Math_ceil :: "jsnum \<Rightarrow> jsnum" where
  "Math_ceil (Fin a) = Fin (of_int \<lceil>a\<rceil>)"
| "Math_ceil x = x"

fun Math_round :: "jsnum \<Rightarrow> jsnum" where
  "Math_round (Fin a) = Fin (of_int \<lfloor>a + 1 / 2\<rfloor>)"
| "Math_round x = x"

fun Math_abs :: "jsnum \<Rightarrow> jsnum" where
  "Math_abs (Fin a) = Fin \<bar>a\<bar>"
| "Math_abs NaN = NaN"
| "Math_abs _ = PInf"

definition isNaN :: "jsnum \<Rightarrow> bool" where
  "isNaN x = (x = NaN)"

text \<open>\<^verbatim>\<open>Number.EPSILON\<close> is \<open>2\<^sup>-\<^sup>5\<^sup>2\<close>.\<close>

definition EPSILON :: jsnum where
  "EPSILON = Fin (1 / 2 ^ 52)"

section \<open>Rounding helpers\<close>

text \<open>\<^verbatim>\<open>roundToTwo(n)\<close>: \<^verbatim>\<open>Math.round((n + Number.EPSILON) * 100) / 100\<close>.\<close>

definition roundToTwo :: "jsnum \<Rightarrow> jsnum" where
  "roundToTwo n = jdiv (Math_round (jmul (jadd n EPSILON) (Fin 100))) (Fin 100)"

text \<open>
  \<^verbatim>\<open>applyRounding(priceNum)\<close>. The source reads the global \<^verbatim>\<open>ROUND_MODE\<close>, a string
  taken from the environment; here it is the first argument.
\<close>

definition applyRounding :: "string \<Rightarrow> jsnum \<Rightarrow> jsnum" where
  "applyRounding ROUND_MODE priceNum =
     (if ROUND_MODE = ''none'' \<or> ROUND_MODE = [] then roundToTwo priceNum
      else if ROUND_MODE = ''.99'' then
        (let nextWhole = Math_ceil priceNum
         in roundToTwo (jsub nextWhole (lit (1 / 100))))
      else if ROUND_MODE = ''.95'' then
        (let whole = Math_floor priceNum;
             candidate1 = jadd whole (lit (95 / 100));
             candidate2 = jadd whole (lit (195 / 100));
             diff1 = Math_abs (jsub candidate1 priceNum);
             diff2 = Math_abs (jsub candidate2 priceNum)
         in roundToTwo (if jle diff1 diff2 then candidate1 else candidate2))
      else if ROUND_MODE = ''whole'' then roundToTwo (Math_round priceNum)
      else roundToTwo priceNum)"

section \<open>Strings\<close>

text \<open>
  Strings are lists of 8-bit characters: the model covers the strings whose code units
  are below 256 (Latin-1 text). \<^verbatim>\<open>trim\<close> removes white space and line terminators at
  both ends; among these characters they are tab, line feed, vertical tab, form feed,
  carriage return, space and the no-break space \<^verbatim>\<open>U+00A0\<close>. \<^verbatim>\<open>toLowerCase\<close> maps
  \<^verbatim>\<open>A\<close>..\<^verbatim>\<open>Z\<close> to \<^verbatim>\<open>a\<close>..\<^verbatim>\<open>z\<close> and the capital letters \<^verbatim>\<open>U+00C0\<close>..\<^verbatim>\<open>U+00DE\<close>
  (all but the multiplication sign \<^verbatim>\<open>U+00D7\<close>) to the letters 32 places further, and
  \<^verbatim>\<open>s.includes(t)\<close> looks for \<^verbatim>\<open>t\<close> at every position of \<^verbatim>\<open>s\<close>.
\<close>

definition isSpace :: "char \<Rightarrow> bool" where
  "isSpace c = (of_char c \<in> {9, 10, 11, 12, 13, 32, 160 :: nat})"

definition trim :: "string \<Rightarrow> string" where
  "trim s = rev (dropWhile isSpace (rev (dropWhile isSpace s)))"

definition lowerChar :: "char \<Rightarrow> char" where
  "lowerChar c =
     (let n = of_char c :: nat
      in if (65 \<le> n \<and> n \<le> 90) \<or> (192 \<le> n \<and> n \<le> 222 \<and> n \<noteq> 215) then char_of (n + 32)
         else c)"

definition toLowerCase :: "string \<Rightarrow> string" where
  "toLowerCase s = map lowerChar s"

fun includes_str :: "string \<Rightarrow> string \<Rightarrow> bool" where
  "includes_str [] t = (t = [])"
| "includes_str (c # cs) t = (prefix t (c # cs) \<or> includes_str cs t)"

text \<open>
  \<^verbatim>\<open>parseFloat\<close> of a string: leading white space is skipped, then the longest prefix
  that is a decimal literal (sign, \<^verbatim>\<open>Infinity\<close> or digits with an optional fraction and
  an optional exponent) is read and rounded to the nearest binary64 value; with no such
  prefix the result is \<^verbatim>\<open>NaN\<close>.
\<close>

definition isDigit :: "char \<Rightarrow> bool" where
  "isDigit c = (48 \<le> (of_char c :: nat) \<and> (of_char c :: nat) \<le> 57)"

definition digitsVal :: "string \<Rightarrow> int" where
  "digitsVal ds = foldl (\<lambda>acc c. 10 * acc + (of_char c - 48)) 0 ds"

definition splitSign :: "string \<Rightarrow> bool \<times> string" where
  "splitSign s =
     (case s of
        c # r \<Rightarrow> if c = CHR ''-'' then (True, r) else if c = CHR ''+'' then (False, r) else (False, s)
      | [] \<Rightarrow> (False, s))"

definition exponentPart :: "string \<Rightarrow> int" where
  "exponentPart s =
     (case s of
        c # r \<Rightarrow>
          if c = CHR ''e'' \<or> c = CHR ''E'' then
            (let (neg, u) = splitSign r; ds = takeWhile isDigit u
             in if ds = [] then 0
                else if neg then - digitsVal ds else digitsVal ds)
          else 0
      | [] \<Rightarrow> 0)"

definition pow10 :: "int \<Rightarrow> rat" where
  "pow10 e = (if 0 \<le> e then 10 ^ nat e else 1 / 10 ^ nat (- e))"

definition parseFloat :: "string \<Rightarrow> jsnum" where
  "parseFloat s =
     (let (neg, u) = splitSign (dropWhile isSpace s)
      in if take 8 u = ''Infinity'' then (if neg then NInf else PInf)
         else
           (let ip = takeWhile isDigit u;
                r1 = dropWhile isDigit u;
                (fp, r2) =
                  (case r1 of
                     c # r \<Rightarrow>
                       if c = CHR ''.'' then (takeWhile isDigit r, dropWhile isDigit r)
                       else ([], r1)
                   | [] \<Rightarrow> ([], r1))
            in if ip = [] \<and> fp = [] then NaN
               else
                 (let m = of_int (digitsVal ip) + of_int (digitsVal fp) / 10 ^ length fp;
                      v = m * pow10 (exponentPart r2)
                  in d64 (if neg then - v else v))))"

text \<open>
  The fields read from JSON and CSV data are absent (\<^verbatim>\<open>undefined\<close> or \<^verbatim>\<open>null\<close>),
  a number or a string. \<^verbatim>\<open>a || b\<close> is \<open>orElse\<close>; calling \<^verbatim>\<open>trim\<close> on anything
  but a string throws a \<^verbatim>\<open>TypeError\<close>.
\<close>

datatype jsval = JUndef | JNum jsnum | JStr string

datatype error = TypeError

definition truthyN :: "jsnum \<Rightarrow> bool" where
  "truthyN x = (x \<noteq> NaN \<and> x \<noteq> Fin 0)"

fun truthy :: "jsval \<Rightarrow> bool" where
  "truthy JUndef = False"
| "truthy (JNum x) = truthyN x"
| "truthy (JStr s) = (s \<noteq> [])"

definition orElse :: "jsval \<Rightarrow> jsval \<Rightarrow> jsval" where
  "orElse a b = (if truthy a then a else b)"

fun trimV :: "jsval \<Rightarrow> error + string" where
  "trimV (JStr s) = Inr (trim s)"
| "trimV _ = Inl TypeError"

text \<open>
  \<^verbatim>\<open>parseFloat\<close> of a value converts it to a string first: a number reads back as
  itself, \<^verbatim>\<open>undefined\<close> and \<^verbatim>\<open>null\<close> give \<^verbatim>\<open>NaN\<close>.
\<close>

fun parseFloatV :: "jsval \<Rightarrow> jsnum" where
  "parseFloatV (JStr s) = parseFloat s"
| "parseFloatV (JNum x) = x"
| "parseFloatV JUndef = NaN"

section \<open>Configuration\<close>

text \<open>
  The settings read from the environment that the pricing code uses. A credential is
  usable when it is set and not empty.
\<close>

record config =
  ROUND_MODE :: string
  PRINTIFY_TOKEN :: "string option"
  PRINTIFY_SHOP_ID :: "string option"

text \<open>\<^verbatim>\<open>a || b\<close> where \<^verbatim>\<open>a\<close> is a string or absent and \<^verbatim>\<open>b\<close> is a string.\<close>

definition orS :: "string option \<Rightarrow> string \<Rightarrow> string" where
  "orS a b = (case a of Some s \<Rightarrow> if s \<noteq> [] then s else b | None \<Rightarrow> b)"

section \<open>AliExpress CSV loader\<close>

text \<open>
  \<^verbatim>\<open>loadAliExpressCSV\<close> reads the feed file and parses it with \<^verbatim>\<open>csv-parse\<close>
  (\<^verbatim>\<open>columns: true\<close>): a record maps the column names of the header to the strings of
  its row. The file is missing, or reading or parsing it throws, or it yields records.
  The table \<^verbatim>\<open>aliexpressCostBySku\<close> is a plain object: \<open>cost_table\<close> is the map of
  its own properties, from SKUs to numbers.
\<close>

type_synonym row = "string \<rightharpoonup> string"

type_synonym cost_table = "string \<rightharpoonup> jsnum"

datatype feed = Missing | Unreadable | Records "row list"

definition rowSku :: "row \<Rightarrow> string" where
  "rowSku r = trim (orS (r ''sku'') (orS (r ''SKU'') []))"

definition rowCost :: "row \<Rightarrow> jsnum" where
  "rowCost r =
     parseFloat (orS (r ''cost'') (orS (r ''cost_usd'') (orS (r ''price'') (orS (r ''price_usd'') ''0''))))"

text \<open>
  \<^verbatim>\<open>map[sku] = cost\<close> on a plain object adds or replaces an own property, except for
  the key \<^verbatim>\<open>__proto__\<close>: that assignment calls the setter of \<^verbatim>\<open>Object.prototype\<close>,
  which ignores a number, and stores nothing.
\<close>

definition assign :: "cost_table \<Rightarrow> string \<Rightarrow> jsnum \<Rightarrow> cost_table" where
  "assign m key c = (if key = ''__proto__'' then m else m(key \<mapsto> c))"

definition loadRow :: "row \<Rightarrow> cost_table \<Rightarrow> cost_table" where
  "loadRow r m =
     (let sku = rowSku r; cost = rowCost r
      in if sku \<noteq> [] then assign m sku (if isNaN cost then Fin 0 else cost) else m)"

definition loadAliExpressCSV :: "feed \<Rightarrow> cost_table" where
  "loadAliExpressCSV f =
     (case f of
        Missing \<Rightarrow> Map.empty
      | Unreadable \<Rightarrow> Map.empty
      | Records records \<Rightarrow> fold loadRow records Map.empty)"

text \<open>
  \<^verbatim>\<open>aliexpressCostBySku[sku]\<close> reads an own property, or else a property inherited from
  \<^verbatim>\<open>Object.prototype\<close>, or else is \<^verbatim>\<open>undefined\<close>. The inherited properties are
  functions, and \<^verbatim>\<open>Object.prototype\<close> itself for the key \<^verbatim>\<open>__proto__\<close>. So a supplier
  cost is a number or such a member: a member is truthy, compares as \<^verbatim>\<open>NaN\<close>, and
  \<^verbatim>\<open>parseFloat\<close> of it is \<^verbatim>\<open>NaN\<close>.
\<close>

datatype supplier_cost = Num jsnum | Member

definition objectPrototypeKeys :: "string list" where
  "objectPrototypeKeys =
     [''constructor'', ''__defineGetter__'', ''__defineSetter__'', ''hasOwnProperty'',
      ''__lookupGetter__'', ''__lookupSetter__'', ''isPrototypeOf'', ''propertyIsEnumerable'',
      ''toString'', ''valueOf'', ''__proto__'', ''toLocaleString'']"

definition lookupCost :: "cost_table \<Rightarrow> string \<Rightarrow> supplier_cost option" where
  "lookupCost m key =
     (case m key of
        Some c \<Rightarrow> Some (Num c)
      | None \<Rightarrow> if key \<in> set objectPrototypeKeys then Some Member else None)"

fun truthyC :: "supplier_cost \<Rightarrow> bool" where
  "truthyC (Num x) = truthyN x"
| "truthyC Member = True"

fun toNumber :: "supplier_cost \<Rightarrow> jsnum" where
  "toNumber (Num x) = x"
| "toNumber Member = NaN"

fun parseFloatC :: "supplier_cost \<Rightarrow> jsnum" where
  "parseFloatC (Num x) = x"
| "parseFloatC Member = NaN"

section \<open>Printify lookup by SKU\<close>

text \<open>
  A product of the Printify listing is its \<^verbatim>\<open>variants\<close> array, or \<open>None\<close> when the
  product is \<^verbatim>\<open>null\<close> or has no such field. A request for a page fails (the HTTP call
  throws), or answers with something that is not an array, or with an array of products.
  The remote catalog is a function from page numbers to answers.
\<close>

record pvariant =
  pv_sku :: jsval
  offer_id :: jsval
  pv_price :: jsval
  retail_price :: jsval
  default_price :: jsval
  variant_price :: jsval

type_synonym pproduct = "pvariant list option"

datatype response = Failed | NotArray | Page "pproduct list"

definition perPage :: nat where
  "perPage = 50"

fun firstPrice :: "jsval list \<Rightarrow> jsnum" where
  "firstPrice [] = Fin 0"
| "firstPrice (pval # possible) =
     (if truthy pval \<and> \<not> isNaN (parseFloatV pval) then parseFloatV pval
      else firstPrice possible)"

text \<open>
  The two inner loops: \<open>Inr (Some c)\<close> is \<^verbatim>\<open>return c\<close>, \<open>Inr None\<close> is a scan that
  ran to its end, \<open>Inl e\<close> an exception. \<open>vSkuOf v\<close> is
  \<^verbatim>\<open>(v.sku || v.offer_id || '').trim()\<close>.
\<close>

definition vSkuOf :: "pvariant \<Rightarrow> error + string" where
  "vSkuOf v = trimV (orElse (pv_sku v) (orElse (offer_id v) (JStr [])))"

fun scanVariants :: "string \<Rightarrow> pvariant list \<Rightarrow> error + jsnum option" where
  "scanVariants sku [] = Inr None"
| "scanVariants sku (v # vs) =
     (case vSkuOf v of
        Inl e \<Rightarrow> Inl e
      | Inr vSku \<Rightarrow>
          if vSku = [] then scanVariants sku vs
          else if vSku = sku then
            Inr (Some (firstPrice [pv_price v, retail_price v, default_price v, variant_price v]))
          else scanVariants sku vs)"

fun scanProducts :: "string \<Rightarrow> pproduct list \<Rightarrow> error + jsnum option" where
  "scanProducts sku [] = Inr None"
| "scanProducts sku (None # ps) = scanProducts sku ps"
| "scanProducts sku (Some vs # ps) =
     (case scanVariants sku vs of
        Inr None \<Rightarrow> scanProducts sku ps
      | r \<Rightarrow> r)"

text \<open>
  The \<^verbatim>\<open>while (true)\<close> loop over the pages. It may run forever, so it is a partial
  function: \<open>None\<close> is a lookup that does not return. The result carries the page
  numbers that were requested, in order.
\<close>

partial_function (option) scanPages ::
  "(nat \<Rightarrow> response) \<Rightarrow> string \<Rightarrow> nat \<Rightarrow> nat list \<Rightarrow> (jsnum \<times> nat list) option" where
  "scanPages remote sku page fetched =
     (case remote page of
        Failed \<Rightarrow> Some (Fin 0, fetched @ [page])
      | NotArray \<Rightarrow> Some (Fin 0, fetched @ [page])
      | Page list \<Rightarrow>
          if list = [] then Some (Fin 0, fetched @ [page])
          else
            (case scanProducts sku list of
               Inl e \<Rightarrow> Some (Fin 0, fetched @ [page])
             | Inr (Some c) \<Rightarrow> Some (c, fetched @ [page])
             | Inr None \<Rightarrow>
                 if length list < perPage then Some (Fin 0, fetched @ [page])
                 else scanPages remote sku (page + 1) (fetched @ [page])))"

definition configured :: "string option \<Rightarrow> bool" where
  "configured x = (case x of Some s \<Rightarrow> s \<noteq> [] | None \<Rightarrow> False)"

definition getPrintifyVariantCostBySku ::
  "config \<Rightarrow> (nat \<Rightarrow> response) \<Rightarrow> string \<Rightarrow> (jsnum \<times> nat list) option" where
  "getPrintifyVariantCostBySku cfg remote sku =
     (if \<not> configured (PRINTIFY_TOKEN cfg) \<or> \<not> configured (PRINTIFY_SHOP_ID cfg)
      then Some (Fin 0, [])
      else scanPages remote sku 1 [])"

section \<open>Price compute for 1% profit\<close>

definition computePriceFromCost :: "string \<Rightarrow> supplier_cost \<Rightarrow> jsnum" where
  "computePriceFromCost mode cost =
     (let P = jdiv (jadd (parseFloatC cost) (lit (30 / 100))) (lit (961 / 1000))
      in applyRounding mode P)"

section \<open>Main job\<close>

text \<open>
  The products fetched from Shopify, as far as the job reads them: products and variants
  are objects, \<^verbatim>\<open>vendor\<close> and \<^verbatim>\<open>title\<close> are strings or absent, \<^verbatim>\<open>variants\<close>
  is an array or absent, and a variant's \<^verbatim>\<open>sku\<close> and \<^verbatim>\<open>price\<close> may be absent, a
  string or a number. A pass runs alone: the cost table is not replaced while it runs.
\<close>

record variant =
  v_id :: nat
  v_sku :: jsval
  v_price :: jsval

record product =
  p_vendor :: "string option"
  p_title :: "string option"
  p_variants :: "variant list option"

text \<open>
  The counters of a pass, and the calls of \<^verbatim>\<open>updateShopifyVariantPrice\<close> it has made
  (variant id and price, in order).
\<close>

record job_state =
  updated :: nat
  skipped :: nat
  errors :: nat
  attempts :: "(nat \<times> jsnum) list"

text \<open>
  \<^verbatim>\<open>updateShopifyVariantPrice\<close> sends one request and returns whether it went through;
  \<open>put\<close> says which requests do. The request carries the price formatted by
  \<^verbatim>\<open>toFixed(2)\<close>; the record of the call keeps the number.
\<close>

definition updateShopifyVariantPrice ::
  "(nat \<Rightarrow> jsnum \<Rightarrow> bool) \<Rightarrow> nat \<Rightarrow> jsnum \<Rightarrow> bool" where
  "updateShopifyVariantPrice put variantId p = put variantId p"

text \<open>Supplier identification and cost lookup (the \<^verbatim>\<open>if\<close> at the head of the loop body).\<close>

definition isPrintify :: "product \<Rightarrow> bool" where
  "isPrintify p =
     (let vendor = toLowerCase (orS (p_vendor p) [])
      in includes_str vendor ''printify'' \<or>
         includes_str (toLowerCase (orS (p_title p) [])) ''printify'')"

definition supplierCostOf ::
  "config \<Rightarrow> cost_table \<Rightarrow> (nat \<Rightarrow> response) \<Rightarrow> product \<Rightarrow> string \<Rightarrow>
   supplier_cost option" where
  "supplierCostOf cfg aliexpressCostBySku remote p sku =
     (if isPrintify p then map_option (\<lambda>r. Num (fst r)) (getPrintifyVariantCostBySku cfg remote sku)
      else Some (case lookupCost aliexpressCostBySku sku of
                   Some c \<Rightarrow> if truthyC c then c else Num (Fin 0)
                 | None \<Rightarrow> Num (Fin 0)))"

text \<open>
  The body of the \<^verbatim>\<open>try\<close> block for one variant: \<open>None\<close> when the Printify lookup
  does not return, \<open>Some (Inl e)\<close> when an exception reaches the \<^verbatim>\<open>catch\<close>.
\<close>

definition tryVariant ::
  "config \<Rightarrow> cost_table \<Rightarrow> (nat \<Rightarrow> response) \<Rightarrow> (nat \<Rightarrow> jsnum \<Rightarrow> bool) \<Rightarrow>
   product \<Rightarrow> variant \<Rightarrow> job_state \<Rightarrow> (error + job_state) option" where
  "tryVariant cfg aliexpressCostBySku remote put p v st =
     (case trimV (orElse (v_sku v) (JStr [])) of
        Inl e \<Rightarrow> Some (Inl e)
      | Inr s \<Rightarrow>
          (case supplierCostOf cfg aliexpressCostBySku remote p s of
             None \<Rightarrow> None
           | Some supplierCost \<Rightarrow>
               if \<not> truthyC supplierCost \<or> jle (toNumber supplierCost) (Fin 0)
               then Some (Inr (st\<lparr>skipped := skipped st + 1\<rparr>))
               else
                 (let newPrice = computePriceFromCost (ROUND_MODE cfg) supplierCost;
                      currentPrice = parseFloatV (orElse (v_price v) (JStr ''0''))
                  in if jgt (Math_abs (jsub currentPrice newPrice)) (lit (9 / 1000))
                     then
                       (let st' = st\<lparr>attempts := attempts st @ [(v_id v, newPrice)]\<rparr>
                        in if updateShopifyVariantPrice put (v_id v) newPrice
                           then Some (Inr (st'\<lparr>updated := updated st' + 1\<rparr>))
                           else Some (Inr (st'\<lparr>errors := errors st' + 1\<rparr>)))
                     else Some (Inr (st\<lparr>skipped := skipped st + 1\<rparr>)))))"

definition processVariant ::
  "config \<Rightarrow> cost_table \<Rightarrow> (nat \<Rightarrow> response) \<Rightarrow> (nat \<Rightarrow> jsnum \<Rightarrow> bool) \<Rightarrow>
   product \<Rightarrow> variant \<Rightarrow> job_state \<Rightarrow> job_state option" where
  "processVariant cfg aliexpressCostBySku remote put p v st =
     (case tryVariant cfg aliexpressCostBySku remote put p v st of
        None \<Rightarrow> None
      | Some (Inl e) \<Rightarrow> Some (st\<lparr>errors := errors st + 1\<rparr>)
      | Some (Inr st') \<Rightarrow> Some st')"

fun forVariants ::
  "config \<Rightarrow> cost_table \<Rightarrow> (nat \<Rightarrow> response) \<Rightarrow> (nat \<Rightarrow> jsnum \<Rightarrow> bool) \<Rightarrow>
   product \<Rightarrow> variant list \<Rightarrow> job_state \<Rightarrow> job_state option" where
  "forVariants cfg tab remote put p [] st = Some st"
| "forVariants cfg tab remote put p (v # vs) st =
     (case processVariant cfg tab remote put p v st of
        None \<Rightarrow> None
      | Some st' \<Rightarrow> forVariants cfg tab remote put p vs st')"

definition variantsOf :: "product \<Rightarrow> variant list" where
  "variantsOf p = (case p_variants p of Some vs \<Rightarrow> vs | None \<Rightarrow> [])"

fun forProducts ::
  "config \<Rightarrow> cost_table \<Rightarrow> (nat \<Rightarrow> response) \<Rightarrow> (nat \<Rightarrow> jsnum \<Rightarrow> bool) \<Rightarrow>
   product list \<Rightarrow> job_state \<Rightarrow> job_state option" where
  "forProducts cfg tab remote put [] st = Some st"
| "forProducts cfg tab remote put (p # ps) st =
     (case forVariants cfg tab remote put p (variantsOf p) st of
        None \<Rightarrow> None
      | Some st' \<Rightarrow> forProducts cfg tab remote put ps st')"

text \<open>
  \<^verbatim>\<open>runPricingJob\<close>: reload the feed, then walk the fetched products. The products
  are what \<^verbatim>\<open>fetchAllShopifyProducts\<close> returned.
\<close>

definition runPricingJob ::
  "config \<Rightarrow> feed \<Rightarrow> (nat \<Rightarrow> response) \<Rightarrow> (nat \<Rightarrow> jsnum \<Rightarrow> bool) \<Rightarrow> product list \<Rightarrow>
   job_state option" where
  "runPricingJob cfg f remote put products =
     forProducts cfg (loadAliExpressCSV f) remote put products
       \<lparr>updated = 0, skipped = 0, errors = 0, attempts = []\<rparr>"

declare scanPages.simps [code]

section \<open>Notions of the specification\<close>

text \<open>
  The inversion check of the specification, \<^verbatim>\<open>priceFromCost(cost) * 0.961 - 0.30 == cost\<close>,
  up to a tolerance: \<open>inversionGap\<close> is the difference of its two sides as the program's
  arithmetic computes it for the price the code returns, and \<open>invertsWithin tol\<close> says
  that the difference is at most \<open>tol\<close> in absolute value.
\<close>

definition inversionGap :: "string \<Rightarrow> rat \<Rightarrow> jsnum" where
  "inversionGap mode cost =
     jsub (jsub (jmul (computePriceFromCost mode (Num (Fin cost))) (lit (961 / 1000)))
                (lit (30 / 100)))
          (Fin cost)"

definition invertsWithin :: "rat \<Rightarrow> string \<Rightarrow> rat \<Rightarrow> bool" where
  "invertsWithin tol mode cost =
     (case inversionGap mode cost of Fin d \<Rightarrow> \<bar>d\<bar> \<le> tol | _ \<Rightarrow> False)"

text \<open>
  A vendor or title matches the marker when its lower-case form has \<^verbatim>\<open>printify\<close> as a
  substring; an absent field counts as the empty string.
\<close>

definition containsMarker :: "string option \<Rightarrow> bool" where
  "containsMarker field = (\<exists>pre post. toLowerCase (orS field []) = pre @ ''printify'' @ post)"

text \<open>
  A page answer that ends the lookup: the request failed, the answer is not an array or is
  empty, the scan of the page returned (a SKU matched) or threw, or the page is shorter
  than the page size. \<open>pageResult\<close> is what the lookup returns at such a page.
\<close>

definition pageStops :: "string \<Rightarrow> response \<Rightarrow> bool" where
  "pageStops sku r =
     (case r of
        Failed \<Rightarrow> True
      | NotArray \<Rightarrow> True
      | Page list \<Rightarrow> list = [] \<or> scanProducts sku list \<noteq> Inr None \<or> length list < perPage)"

definition pageResult :: "string \<Rightarrow> response \<Rightarrow> jsnum" where
  "pageResult sku r =
     (case r of
        Page list \<Rightarrow>
          if list = [] then Fin 0
          else (case scanProducts sku list of Inr (Some c) \<Rightarrow> c | _ \<Rightarrow> Fin 0)
      | _ \<Rightarrow> Fin 0)"

text \<open>The number of variants a pass iterates over.\<close>

definition totalVariants :: "product list \<Rightarrow> nat" where
  "totalVariants products = sum_list (map (\<lambda>p. length (variantsOf p)) products)"

section \<open>Example data\<close>

definition shopConfig :: "string \<Rightarrow> config" where
  "shopConfig mode = \<lparr>ROUND_MODE = mode, PRINTIFY_TOKEN = Some ''token'', PRINTIFY_SHOP_ID = Some ''1''\<rparr>"

definition feedSKU123 :: feed where
  "feedSKU123 = Records [[''sku'' \<mapsto> ''SKU123'', ''cost'' \<mapsto> ''4.00'']]"

text \<open>A feed with one cheap item, at ten cents.\<close>

definition feedPIN :: feed where
  "feedPIN = Records [[''sku'' \<mapsto> ''PIN'', ''cost'' \<mapsto> ''0.10'']]"

definition genericProduct :: "variant list \<Rightarrow> product" where
  "genericProduct vs = \<lparr>p_vendor = Some ''Generic'', p_title = Some ''Mug'', p_variants = Some vs\<rparr>"

definition printifyProduct :: "variant list \<Rightarrow> product" where
  "printifyProduct vs =
     \<lparr>p_vendor = Some ''Printify Prints'', p_title = Some ''Poster'', p_variants = Some vs\<rparr>"

definition emptyCatalog :: "nat \<Rightarrow> response" where
  "emptyCatalog page = Page []"

text \<open>Update requests that all go through, or all but those for one variant.\<close>

definition putAlways :: "nat \<Rightarrow> jsnum \<Rightarrow> bool" where
  "putAlways variantId p = True"

definition putExcept :: "nat \<Rightarrow> nat \<Rightarrow> jsnum \<Rightarrow> bool" where
  "putExcept failing variantId p = (variantId \<noteq> failing)"

definition newJob :: job_state where
  "newJob = \<lparr>updated = 0, skipped = 0, errors = 0, attempts = []\<rparr>"

text \<open>
  A remote catalog whose pages are all full (50 products): no variant of pages 1 and 2 has
  the SKU \<^verbatim>\<open>TARGET\<close>, the last product of page 3 has a variant with that SKU, no
  \<^verbatim>\<open>price\<close> and a \<^verbatim>\<open>retail_price\<close> of \<^verbatim>\<open>12.50\<close>, and every later page is full again.
\<close>

definition otherProduct :: pproduct where
  "otherProduct =
     Some [\<lparr>pv_sku = JStr ''OTHER'', offer_id = JUndef, pv_price = JNum (Fin 999),
            retail_price = JUndef, default_price = JUndef, variant_price = JUndef\<rparr>]"

definition targetProduct :: pproduct where
  "targetProduct =
     Some [\<lparr>pv_sku = JUndef, offer_id = JStr ''ANOTHER'', pv_price = JNum (Fin 500),
            retail_price = JUndef, default_price = JUndef, variant_price = JUndef\<rparr>,
           \<lparr>pv_sku = JStr '' TARGET '', offer_id = JUndef, pv_price = JUndef,
            retail_price = JStr ''12.50'', default_price = JNum (Fin 9),
            variant_price = JUndef\<rparr>]"

definition threePages :: "nat \<Rightarrow> response" where
  "threePages page =
     (if page = 3 then Page (replicate 49 otherProduct @ [targetProduct])
      else Page (replicate 50 otherProduct))"

text \<open>Four feed rows: a priced SKU, a blank SKU, an unparsable cost, and the first SKU again.\<close>

definition rowA :: row where
  "rowA = [''sku'' \<mapsto> ''A1'', ''cost'' \<mapsto> ''1.50'']"

definition rowBlank :: row where
  "rowBlank = [''sku'' \<mapsto> ''  '', ''cost'' \<mapsto> ''9'']"

definition rowBad :: row where
  "rowBad = [''SKU'' \<mapsto> ''B2'', ''price'' \<mapsto> ''abc'']"

definition rowA' :: row where
  "rowA' = [''sku'' \<mapsto> '' A1 '', ''cost_usd'' \<mapsto> ''2.25'']"

text \<open>A feed row for the SKU \<^verbatim>\<open>__proto__\<close>.\<close>

definition rowProto :: row where
  "rowProto = [''sku'' \<mapsto> ''__proto__'', ''cost'' \<mapsto> ''4.00'']"

text \<open>
  A catalog snapshot with a bulk-feed product of three variants (one of them with a number
  for a SKU) and a Printify product of one variant.
\<close>

definition demoProducts :: "product list" where
  "demoProducts =
     [genericProduct
        [\<lparr>v_id = 7, v_sku = JStr ''SKU123'', v_price = JStr ''4.00''\<rparr>,
         \<lparr>v_id = 3, v_sku = JStr ''NOCOST'', v_price = JStr ''19.99''\<rparr>,
         \<lparr>v_id = 5, v_sku = JNum (Fin 12), v_price = JStr ''1.00''\<rparr>],
      printifyProduct
        [\<lparr>v_id = 4, v_sku = JStr ''TARGET'', v_price = JStr ''12.50''\<rparr>]]"

section \<open>Binary64 rounding: auxiliary facts\<close>

lemma pow2_pos: "0 < pow2 e"
  by (simp add: pow2_def)

lemma pow2_add: "pow2 (a + b) = pow2 a * pow2 b"
proof -
  have "pow2 e = 2 powi e" for e
    by (simp add: pow2_def power_int_def field_simps)
  then show ?thesis by (simp add: power_int_add)
qed

lemma pow2_mono: "a \<le> b \<Longrightarrow> pow2 a \<le> pow2 b"
proof -
  have "pow2 e = 2 powi e" for e
    by (simp add: pow2_def power_int_def field_simps)
  then show "a \<le> b \<Longrightarrow> pow2 a \<le> pow2 b"
    by (simp add: power_int_increasing)
qed

lemma ilog2_bounds:
  assumes "0 < a"
  shows "pow2 (ilog2 a) \<le> a \<and> a < pow2 (ilog2 a + 1)"
proof (cases "1 \<le> a")
  case True
  define n where "n = \<lfloor>a\<rfloor>"
  have n: "1 \<le> n" "of_int n \<le> a" "a < of_int n + 1"
    using True unfolding n_def by linarith+
  then have pos: "0 < n" by simp
  from bitlen_bounds [OF pos] have b: "2 ^ nat (bitlen n - 1) \<le> n" "n < 2 ^ nat (bitlen n)"
    by simp_all
  have b1: "1 \<le> bitlen n"
    using pos by (simp add: bitlen_alt_def)
  have i: "ilog2 a = bitlen n - 1"
    using True by (simp add: ilog2_def n_def)
  have "pow2 (ilog2 a) = of_int (2 ^ nat (bitlen n - 1))"
    using b1 by (simp add: i pow2_def)
  also have "\<dots> \<le> of_int n"
    using b(1) by (simp only: of_int_le_iff)
  finally have lo: "pow2 (ilog2 a) \<le> a"
    using n(2) by linarith
  have "n + 1 \<le> 2 ^ nat (bitlen n)"
    using b(2) by simp
  then have "(of_int (n + 1) :: rat) \<le> of_int (2 ^ nat (bitlen n))"
    by (simp only: of_int_le_iff)
  moreover have "pow2 (ilog2 a + 1) = of_int (2 ^ nat (bitlen n))"
    using b1 by (simp add: i pow2_def)
  ultimately have hi: "a < pow2 (ilog2 a + 1)"
    using n(3) by simp
  from lo hi show ?thesis by blast
next
  case False
  define y where "y = 1 / a"
  have y: "1 < y" "0 < y"
    using False assms by (simp_all add: y_def)
  define m where "m = \<lceil>y\<rceil> - 1"
  have m: "1 \<le> m" "of_int m < y" "y \<le> of_int m + 1"
    using y unfolding m_def by linarith+
  then have pos: "0 < m" by simp
  from bitlen_bounds [OF pos] have b: "2 ^ nat (bitlen m - 1) \<le> m" "m < 2 ^ nat (bitlen m)"
    by simp_all
  have b1: "1 \<le> bitlen m"
    using pos by (simp add: bitlen_alt_def)
  have i: "ilog2 a = - bitlen m"
    using False by (simp add: ilog2_def m_def y_def)
  have a: "a = 1 / y"
    by (simp add: y_def)
  have "m + 1 \<le> 2 ^ nat (bitlen m)"
    using b(2) by simp
  then have "(of_int (m + 1) :: rat) \<le> of_int (2 ^ nat (bitlen m))"
    by (simp only: of_int_le_iff)
  then have "y \<le> 2 ^ nat (bitlen m)"
    using m(3) by simp
  then have "1 / 2 ^ nat (bitlen m) \<le> 1 / y"
    using y(2) by (simp add: frac_le)
  moreover have "pow2 (ilog2 a) = 1 / 2 ^ nat (bitlen m)"
    using b1 by (simp add: i pow2_def)
  ultimately have lo: "pow2 (ilog2 a) \<le> a"
    by (simp add: a)
  have "(of_int (2 ^ nat (bitlen m - 1)) :: rat) \<le> of_int m"
    using b(1) by (simp only: of_int_le_iff)
  then have "(2::rat) ^ nat (bitlen m - 1) \<le> of_int m"
    by simp
  then have "2 ^ nat (bitlen m - 1) < y"
    using m(2) by linarith
  then have "1 / y < 1 / 2 ^ nat (bitlen m - 1)"
    by (simp add: frac_less2)
  moreover have "pow2 (ilog2 a + 1) = 1 / 2 ^ nat (bitlen m - 1)"
  proof (cases "bitlen m = 1")
    case True
    then show ?thesis by (simp add: i pow2_def)
  next
    case False
    with b1 have "1 < bitlen m" by simp
    then have "nat (- (1 - bitlen m)) = nat (bitlen m - 1)" by simp
    with \<open>1 < bitlen m\<close> show ?thesis by (simp add: i pow2_def)
  qed
  ultimately have hi: "a < pow2 (ilog2 a + 1)"
    by (simp add: a)
  from lo hi show ?thesis by blast
qed

lemma rne_near: "\<bar>of_int (rne z) - z\<bar> \<le> 1 / 2"
proof -
  define f where "f = \<lfloor>z\<rfloor>"
  define d where "d = z - of_int f"
  have d: "0 \<le> d" "d < 1"
    unfolding d_def f_def by linarith+
  have z: "z = of_int f + d"
    by (simp add: d_def)
  have r: "rne z = (if d < 1 / 2 then f else if 1 / 2 < d then f + 1
      else if even f then f else f + 1)"
    unfolding rne_def Let_def f_def d_def by (rule refl)
  consider "d < 1 / 2" | "1 / 2 < d" | "d = 1 / 2" by linarith
  then show ?thesis
  proof cases
    case 1
    then have "rne z = f" by (simp add: r)
    with 1 d show ?thesis by (simp add: z)
  next
    case 2
    then have "rne z = f + 1" by (simp add: r)
    with 2 d show ?thesis by (simp add: z)
  next
    case 3
    then have "rne z = f \<or> rne z = f + 1"
      by (simp add: r)
    with 3 show ?thesis by (auto simp add: z)
  qed
qed

lemma rne_of_int [simp]: "rne (of_int k) = k"
  by (simp add: rne_def)

lemma fl_zero [simp]: "fl 0 = 0"
  by (simp add: fl_def)

text \<open>
  The error of a rounding: relative to the value by \<open>2\<^sup>-\<^sup>5\<^sup>3\<close>, up to the underflow, which
  is bounded here by \<open>2\<^sup>-\<^sup>1\<^sup>0\<^sup>0\<close>.
\<close>
lemma fl_error: "\<bar>fl x - x\<bar> \<le> \<bar>x\<bar> / 2 ^ 53 + 1 / 2 ^ 100"
proof (cases "x = 0")
  case True
  then show ?thesis by simp
next
  case False
  define i where "i = ilog2 \<bar>x\<bar>"
  define e where "e = max i (- 1022) - 52"
  define z where "z = x / pow2 e"
  have flx: "fl x = of_int (rne z) * pow2 e"
    using False by (simp add: fl_def Let_def e_def i_def z_def)
  have x: "x = z * pow2 e"
    using pow2_pos [of e] by (simp add: z_def)
  have "fl x - x = (of_int (rne z) - z) * pow2 e"
    by (simp add: flx algebra_simps) (simp add: x [symmetric])
  then have "\<bar>fl x - x\<bar> = \<bar>of_int (rne z) - z\<bar> * pow2 e"
    using pow2_pos [of e] by (simp add: abs_mult)
  also have "\<dots> \<le> 1 / 2 * pow2 e"
    using rne_near [of z] pow2_pos [of e] by (intro mult_right_mono) simp_all
  finally have err: "\<bar>fl x - x\<bar> \<le> pow2 e / 2" by simp
  show ?thesis
  proof (cases "- 1022 \<le> i")
    case True
    then have "e = i - 52" by (simp add: e_def)
    then have "pow2 i = pow2 e * pow2 52"
      using pow2_add [of e 52] by simp
    then have "pow2 e = pow2 i / 2 ^ 52"
      by (simp add: pow2_def)
    moreover have "pow2 i \<le> \<bar>x\<bar>"
      using ilog2_bounds [of "\<bar>x\<bar>"] False by (simp add: i_def)
    ultimately have "pow2 e / 2 \<le> \<bar>x\<bar> / 2 ^ 53"
      by simp
    moreover have "(0::rat) \<le> 1 / 2 ^ 100" by simp
    ultimately show ?thesis using err by linarith
  next
    case False
    then have "e = - 1074" by (simp add: e_def)
    then have "pow2 e / 2 = 1 / 2 ^ 1075" by (simp add: pow2_def)
    also have "\<dots> \<le> 1 / 2 ^ 100"
      by (intro divide_left_mono power_increasing) simp_all
    finally have "pow2 e / 2 \<le> 1 / 2 ^ 100" .
    moreover have "0 \<le> \<bar>x\<bar> / 2 ^ 53" by simp
    ultimately show ?thesis using err by linarith
  qed
qed

text \<open>Rules that evaluate a rounding on numerals.\<close>

lemma floor_rat_numeral [simp]: "\<lfloor>numeral a / numeral b :: rat\<rfloor> = numeral a div numeral b"
  by (metis floor_divide_of_int_eq of_int_numeral)
lemma floor_rat_one_numeral [simp]: "\<lfloor>1 / numeral b :: rat\<rfloor> = 1 div numeral b"
  by (metis floor_divide_of_int_eq of_int_1 of_int_numeral)
lemma floor_rat_neg_numeral [simp]: "\<lfloor>- (numeral a / numeral b) :: rat\<rfloor> = - numeral a div numeral b"
  by (metis floor_divide_of_int_eq of_int_numeral of_int_minus minus_divide_left)
lemma ceiling_rat_numeral [simp]: "\<lceil>numeral a / numeral b :: rat\<rceil> = - (- numeral a div numeral b)"
  by (simp add: ceiling_def)
lemma bitlen_numeral: "bitlen (numeral n) = bitlen (numeral n div 2) + 1"
  by (subst compute_bitlen) simp
lemma bitlen_one: "bitlen 1 = 1"
  by (subst compute_bitlen) simp
lemmas fl_eval = fl_def d64_def lit_def ilog2_def rne_def pow2_def Let_def bitlen_numeral bitlen_one

lemma pow2_numeral: "pow2 1024 = 2 ^ 1024" by (simp add: pow2_def)

text \<open>A rounding of a value of moderate size does not overflow.\<close>

lemma d64_Fin:
  assumes "\<bar>x\<bar> \<le> 10 ^ 15"
  shows "d64 x = Fin (fl x)"
proof (cases "fl x = 0")
  case True
  then show ?thesis by (simp add: d64_def)
next
  case False
  define r where "r = fl x"
  have "\<bar>r - x\<bar> \<le> \<bar>x\<bar> / 2 ^ 53 + 1 / 2 ^ 100"
    unfolding r_def by (rule fl_error)
  moreover have "\<bar>x\<bar> / 2 ^ 53 \<le> \<bar>x\<bar>" 
    by (simp add: divide_le_eq)
  moreover have "(1::rat) / 2 ^ 100 \<le> 1" by simp
  ultimately have "\<bar>r\<bar> \<le> 2 * \<bar>x\<bar> + 1" by linarith
  with assms have rb: "\<bar>r\<bar> \<le> 2 * 10 ^ 15 + 1" by linarith
  have "ilog2 \<bar>r\<bar> < 1024"
  proof (rule ccontr)
    assume "\<not> ilog2 \<bar>r\<bar> < 1024"
    then have "pow2 1024 \<le> pow2 (ilog2 \<bar>r\<bar>)" by (intro pow2_mono) simp
    also have "\<dots> \<le> \<bar>r\<bar>"
      using ilog2_bounds [of "\<bar>r\<bar>"] False by (simp add: r_def)
    finally have "2 ^ 1024 \<le> \<bar>r\<bar>" by (simp add: pow2_def)
    moreover have "(2 * 10 ^ 15 + 1 :: rat) < 2 ^ 1024" by simp
    ultimately show False using rb by linarith
  qed
  with False show ?thesis by (simp add: d64_def r_def Let_def)
qed

text \<open>A value of \<open>2\<^sup>1\<^sup>0\<^sup>2\<^sup>4\<close> or more overflows to \<^verbatim>\<open>Infinity\<close>.\<close>

lemma d64_overflow:
  assumes "2 ^ 1024 \<le> x"
  shows "d64 x = PInf"
proof -
  have x0: "0 < x" and x1: "1 \<le> x"
  proof -
    have "(1::rat) \<le> 2 ^ 1024" by simp
    with assms show "1 \<le> x" by linarith
    then show "0 < x" by linarith
  qed
  define n where "n = ilog2 x"
  have nb: "pow2 n \<le> x" "x < pow2 (n + 1)"
    using ilog2_bounds [OF x0] by (simp_all add: n_def)
  have n: "1024 \<le> n"
  proof (rule ccontr)
    assume "\<not> 1024 \<le> n"
    then have "pow2 (n + 1) \<le> pow2 1024" by (intro pow2_mono) simp
    with nb(2) assms show False by (simp add: pow2_def)
  qed
  define e where "e = n - 52"
  have e: "max (ilog2 x) (- 1022) - 52 = e"
    using n by (simp add: e_def n_def)
  define z where "z = x / pow2 e"
  have "pow2 n = pow2 52 * pow2 e"
    unfolding e_def pow2_add [symmetric] by simp
  then have "pow2 52 * pow2 e \<le> x"
    using nb(1) by simp
  then have "pow2 52 \<le> z"
    unfolding z_def using pow2_pos [of e] by (simp add: pos_le_divide_eq)
  then have z: "4503599627370496 \<le> z"
    by (simp add: pow2_def)
  have "4503599627370496 - 1 / 2 \<le> (of_int (rne z) :: rat)"
    using rne_near [of z] z by linarith
  then have "(4503599627370495 :: rat) < of_int (rne z)"
    by linarith
  then have "4503599627370495 < rne z"
    by linarith
  then have "4503599627370496 \<le> rne z"
    by simp
  then have "(of_int 4503599627370496 :: rat) \<le> of_int (rne z)"
    by (simp only: of_int_le_iff)
  then have k: "pow2 52 \<le> of_int (rne z)"
    by (simp add: pow2_def)
  define r where "r = fl x"
  have r: "r = of_int (rne z) * pow2 e"
    using x0 by (simp add: r_def fl_def e z_def Let_def)
  have "pow2 52 * pow2 e \<le> of_int (rne z) * pow2 e"
    using k pow2_pos [of e] by (intro mult_right_mono) simp_all
  then have big: "pow2 n \<le> r"
    unfolding r \<open>pow2 n = pow2 52 * pow2 e\<close> .
  have r0: "0 < r"
    using big pow2_pos [of n] by linarith
  have "1024 \<le> ilog2 \<bar>r\<bar>"
  proof (rule ccontr)
    assume "\<not> 1024 \<le> ilog2 \<bar>r\<bar>"
    then have "pow2 (ilog2 r + 1) \<le> pow2 n"
      using n r0 by (intro pow2_mono) simp
    moreover have "r < pow2 (ilog2 r + 1)"
      using ilog2_bounds [OF r0] by simp
    ultimately show False using big by linarith
  qed
  with r0 show ?thesis
    by (simp add: d64_def r_def Let_def)
qed

text \<open>A value of at most \<open>2\<^sup>-\<^sup>1\<^sup>0\<^sup>7\<^sup>5\<close> in magnitude underflows to \<open>0\<close>.\<close>

lemma d64_underflow:
  assumes "\<bar>x\<bar> \<le> 1 / 2 ^ 1075"
  shows "d64 x = Fin 0"
proof (cases "x = 0")
  case True
  then show ?thesis by (simp add: d64_def)
next
  case False
  then have x0: "0 < \<bar>x\<bar>" by simp
  have small: "ilog2 \<bar>x\<bar> \<le> - 1022"
  proof (rule ccontr)
    assume "\<not> ilog2 \<bar>x\<bar> \<le> - 1022"
    then have "pow2 (- 1022) \<le> pow2 (ilog2 \<bar>x\<bar>)" by (intro pow2_mono) simp
    also have "\<dots> \<le> \<bar>x\<bar>"
      using ilog2_bounds [OF x0] by simp
    finally have "1 / 2 ^ 1022 \<le> \<bar>x\<bar>" by (simp add: pow2_def)
    moreover have "(1::rat) / 2 ^ 1075 < 1 / 2 ^ 1022" by simp
    ultimately show False using assms by linarith
  qed
  then have e: "max (ilog2 \<bar>x\<bar>) (- 1022) - 52 = - 1074"
    by simp
  define z where "z = x / pow2 (- 1074)"
  have p: "pow2 (- 1074) = 1 / 2 ^ 1074"
    by (simp add: pow2_def)
  have "\<bar>z\<bar> = \<bar>x\<bar> * 2 ^ 1074"
    by (simp add: z_def p abs_mult)
  also have "\<dots> \<le> (1 / 2 ^ 1075) * 2 ^ 1074"
    using assms by (intro mult_right_mono) simp_all
  finally have zb: "\<bar>z\<bar> \<le> 1 / 2"
    by simp
  have "rne z = 0"
  proof -
    consider "0 \<le> z" "z < 1 / 2" | "z = 1 / 2" | "z < 0" "- (1 / 2) < z" | "z = - (1 / 2)"
      using zb by linarith
    then show ?thesis
    proof cases
      case 1
      then have "\<lfloor>z\<rfloor> = 0" by (intro floor_unique) simp_all
      with 1 show ?thesis by (simp add: rne_def Let_def)
    next
      case 2
      have "rne (1 / 2) = 0"
        by (simp add: rne_def Let_def)
      with 2 show ?thesis by (simp only:)
    next
      case 3
      then have "\<lfloor>z\<rfloor> = - 1" by (intro floor_unique) simp_all
      with 3 show ?thesis by (simp add: rne_def Let_def)
    next
      case 4
      have "\<lfloor>- (1 / 2) :: rat\<rfloor> = - 1"
        by (intro floor_unique) simp_all
      then have "rne (- (1 / 2)) = 0"
        by (simp add: rne_def Let_def)
      with 4 show ?thesis by (simp only:)
    qed
  qed
  then have "fl x = 0"
    using False by (simp add: fl_def e z_def Let_def)
  then show ?thesis by (simp add: d64_def)
qed

text \<open>Integers below \<open>2\<^sup>5\<^sup>3\<close> are binary64 values.\<close>

lemma fl_of_int:
  assumes "\<bar>n\<bar> < 2 ^ 53"
  shows "fl (of_int n) = of_int n"
proof (cases "n = 0")
  case True
  then show ?thesis by simp
next
  case False
  define a :: rat where "a = \<bar>of_int n\<bar>"
  define i where "i = ilog2 a"
  have a1: "1 \<le> a" using False by (simp add: a_def)
  have a2: "a < 2 ^ 53"
  proof -
    have "(of_int \<bar>n\<bar> :: rat) < of_int (2 ^ 53)" using assms by (simp only: of_int_less_iff)
    then show ?thesis by (simp add: a_def)
  qed
  have b: "pow2 i \<le> a" "a < pow2 (i + 1)"
    using ilog2_bounds [of a] a1 by (simp_all add: i_def)
  have i0: "0 \<le> i"
  proof (rule ccontr)
    assume "\<not> 0 \<le> i"
    then have "pow2 (i + 1) \<le> pow2 0" by (intro pow2_mono) simp
    with b(2) a1 show False by (simp add: pow2_def)
  qed
  have i52: "i \<le> 52"
  proof (rule ccontr)
    assume "\<not> i \<le> 52"
    then have "pow2 53 \<le> pow2 i" by (intro pow2_mono) simp
    with b(1) a2 show False by (simp add: pow2_def)
  qed
  define j where "j = nat (52 - i)"
  have e: "max i (- 1022) - 52 = - int j"
    using i0 i52 by (simp add: j_def)
  have p: "pow2 (- int j) = 1 / 2 ^ j"
    by (cases "j = 0") (simp_all add: pow2_def)
  have z: "of_int n / pow2 (- int j) = of_int (n * 2 ^ j)"
    by (simp add: p)
  have "fl (of_int n) = of_int (rne (of_int n / pow2 (- int j))) * pow2 (- int j)"
    using False e by (simp add: fl_def Let_def i_def a_def)
  also have "\<dots> = of_int (n * 2 ^ j) * pow2 (- int j)"
    by (simp only: z rne_of_int)
  also have "\<dots> = of_int n"
    by (simp add: p)
  finally show ?thesis .
qed

section \<open>Rounding: auxiliary facts\<close>

lemma abs_fl_bound:
  assumes "\<bar>x\<bar> \<le> B" and "B / 2 ^ 53 + 1 / 2 ^ 100 \<le> d"
  shows "\<bar>fl x - x\<bar> \<le> d"
proof -
  have "\<bar>x\<bar> / 2 ^ 53 \<le> B / 2 ^ 53"
    using assms(1) by (simp add: divide_right_mono)
  with fl_error [of x] assms(2) show ?thesis by linarith
qed

text \<open>
  \<open>roundToTwo\<close> on a number of moderate size: the argument of \<^verbatim>\<open>Math.round\<close> is within
  \<open>0.003\<close> of a hundred times the number.
\<close>

lemma roundToTwo_chain:
  assumes v: "\<bar>v\<bar> \<le> 2 * 10 ^ 10"
  obtains t where "roundToTwo (Fin v) = d64 (of_int \<lfloor>t + 1 / 2\<rfloor> / 100)"
    and "\<bar>t - 100 * v\<bar> \<le> 3 / 1000"
proof -
  define E :: rat where "E = 1 / 2 ^ 52"
  define s where "s = fl (v + E)"
  define t where "t = fl (s * 100)"
  have E: "0 \<le> E" "E \<le> 1 / 1000000"
    by (simp_all add: E_def)
  have v': "\<bar>v\<bar> \<le> 20000000000"
    using v by simp
  have ve: "\<bar>v + E\<bar> \<le> 20000000001"
    using v' E by linarith
  have se: "\<bar>s - (v + E)\<bar> \<le> 1 / 100000"
    unfolding s_def using ve by (rule abs_fl_bound) simp
  have sv: "\<bar>s - v\<bar> \<le> 11 / 1000000"
    using se E by linarith
  have sb: "\<bar>s * 100\<bar> \<le> 3000000000000"
    using sv v' by linarith
  have te: "\<bar>t - s * 100\<bar> \<le> 1 / 1000"
    unfolding t_def using sb by (rule abs_fl_bound) simp
  have tv: "\<bar>t - 100 * v\<bar> \<le> 3 / 1000"
    using te sv by linarith
  have a: "jadd (Fin v) EPSILON = Fin s"
    using ve by (simp add: EPSILON_def s_def E_def d64_Fin)
  have m: "jmul (Fin s) (Fin 100) = Fin t"
    using sb by (simp add: t_def d64_Fin)
  have "roundToTwo (Fin v) = d64 (of_int \<lfloor>t + 1 / 2\<rfloor> / 100)"
    unfolding roundToTwo_def a m by simp
  then show ?thesis using tv by (rule that)
qed

lemma roundToTwo_at:
  assumes v: "\<bar>v\<bar> \<le> 2 * 10 ^ 10" and k: "\<bar>100 * v - of_int k\<bar> \<le> 1 / 4"
  shows "roundToTwo (Fin v) = d64 (of_int k / 100)"
proof -
  from v obtain t where r: "roundToTwo (Fin v) = d64 (of_int \<lfloor>t + 1 / 2\<rfloor> / 100)"
    and t: "\<bar>t - 100 * v\<bar> \<le> 3 / 1000"
    by (rule roundToTwo_chain)
  have "\<lfloor>t + 1 / 2\<rfloor> = k"
    using t k by (intro floor_unique) linarith+
  with r show ?thesis by simp
qed

text \<open>The binary64 value nearest to a whole number of cents is a fixed point.\<close>

lemma cents_value:
  assumes "\<bar>k\<bar> \<le> 10 ^ 12"
  obtains v where "d64 (of_int k / 100) = Fin v" and "\<bar>v - of_int k / 100\<bar> \<le> 1 / 100000"
    and "\<bar>v\<bar> \<le> 2 * 10 ^ 10"
proof -
  have "(of_int \<bar>k\<bar> :: rat) \<le> of_int (10 ^ 12)"
    using assms by (simp only: of_int_le_iff)
  then have k: "\<bar>of_int k :: rat\<bar> \<le> 1000000000000"
    by simp
  then have b: "\<bar>of_int k / 100 :: rat\<bar> \<le> 10000000000"
    by simp
  have e: "\<bar>fl (of_int k / 100) - of_int k / 100\<bar> \<le> 1 / 100000"
    using b by (rule abs_fl_bound) simp
  have "d64 (of_int k / 100) = Fin (fl (of_int k / 100))"
    using b by (intro d64_Fin) simp
  moreover have "\<bar>fl (of_int k / 100)\<bar> \<le> 20000000000"
    using e b by linarith
  then have "\<bar>fl (of_int k / 100)\<bar> \<le> 2 * 10 ^ 10"
    by simp
  ultimately show ?thesis using e by (intro that)
qed

lemma roundToTwo_cents:
  assumes "\<bar>k\<bar> \<le> 10 ^ 12"
  shows "roundToTwo (d64 (of_int k / 100)) = d64 (of_int k / 100)"
proof -
  from assms obtain v where v: "d64 (of_int k / 100) = Fin v"
    "\<bar>v - of_int k / 100\<bar> \<le> 1 / 100000" "\<bar>v\<bar> \<le> 2 * 10 ^ 10"
    by (rule cents_value)
  from v(2) have "\<bar>100 * v - of_int k\<bar> \<le> 1 / 4"
    by linarith
  with v(3) have "roundToTwo (Fin v) = d64 (of_int k / 100)"
    by (rule roundToTwo_at)
  with v(1) show ?thesis by simp
qed

text \<open>On a price up to \<open>10\<^sup>9\<close>, \<open>roundToTwo\<close> gives the value nearest to some cents.\<close>

lemma roundToTwo_range:
  assumes "\<bar>x\<bar> \<le> 10 ^ 9"
  obtains k where "roundToTwo (Fin x) = d64 (of_int k / 100)" and "\<bar>k\<bar> \<le> 10 ^ 12"
    and "\<bar>of_int k - 100 * x\<bar> \<le> 1 / 2 + 3 / 1000"
proof -
  have x: "\<bar>x\<bar> \<le> 1000000000"
    using assms by simp
  then have "\<bar>x\<bar> \<le> 2 * 10 ^ 10"
    by simp
  then obtain t where r: "roundToTwo (Fin x) = d64 (of_int \<lfloor>t + 1 / 2\<rfloor> / 100)"
    and t: "\<bar>t - 100 * x\<bar> \<le> 3 / 1000"
    by (rule roundToTwo_chain)
  define k where "k = \<lfloor>t + 1 / 2\<rfloor>"
  have kt: "of_int k \<le> t + 1 / 2" "t + 1 / 2 < of_int k + 1"
    unfolding k_def by linarith+
  have near: "\<bar>of_int k - 100 * x\<bar> \<le> 1 / 2 + 3 / 1000"
    using kt t by linarith
  have "\<bar>of_int k :: rat\<bar> \<le> 1000000000000"
    using near x by linarith
  then have "(of_int \<bar>k\<bar> :: rat) \<le> of_int (10 ^ 12)"
    by simp
  then have "\<bar>k\<bar> \<le> 10 ^ 12"
    by (simp only: of_int_le_iff)
  with r near show ?thesis
    unfolding k_def [symmetric] by (intro that)
qed

lemma roundToTwo_idem:
  assumes "\<bar>x\<bar> \<le> 10 ^ 9"
  shows "roundToTwo (roundToTwo (Fin x)) = roundToTwo (Fin x)"
proof -
  from assms obtain k where "roundToTwo (Fin x) = d64 (of_int k / 100)" "\<bar>k\<bar> \<le> 10 ^ 12"
    by (rule roundToTwo_range)
  then show ?thesis by (simp add: roundToTwo_cents)
qed

text \<open>A decimal literal below one is a finite number close to its decimal value.\<close>

lemma lit_value:
  assumes "\<bar>x\<bar> \<le> 2"
  obtains d where "lit x = Fin d" and "\<bar>d - x\<bar> \<le> 1 / 10 ^ 15"
proof -
  have e: "\<bar>fl x - x\<bar> \<le> 1 / 1000000000000000"
    using assms by (rule abs_fl_bound) simp
  have "\<bar>x\<bar> \<le> 10 ^ 15" using assms by simp
  then have "lit x = Fin (fl x)"
    unfolding lit_def by (rule d64_Fin)
  then show ?thesis using e by (intro that) simp_all
qed

lemma of_int_bound:
  assumes "0 \<le> c" and "c \<le> 10 ^ 9"
  shows "(0::rat) \<le> of_int c" and "(of_int c :: rat) \<le> 1000000000"
proof -
  show "(0::rat) \<le> of_int c" using assms(1) by simp
  have "(of_int c :: rat) \<le> of_int (10 ^ 9)"
    using assms(2) by (simp only: of_int_le_iff)
  then show "(of_int c :: rat) \<le> 1000000000" by simp
qed

lemma round99_at:
  assumes "0 \<le> c" and "c \<le> 10 ^ 9" and "\<lceil>x\<rceil> = c"
  shows "applyRounding ''.99'' (Fin x) = d64 (of_int (100 * c - 1) / 100)"
proof -
  obtain d where d: "lit (1 / 100) = Fin d" "\<bar>d - 1 / 100\<bar> \<le> 1 / 10 ^ 15"
    by (rule lit_value [of "1 / 100"]) simp
  have d': "\<bar>d - 1 / 100\<bar> \<le> 1 / 1000000000000000"
    using d(2) by simp
  note c = of_int_bound [OF assms(1,2)]
  define v where "v = fl (of_int c - d)"
  have b: "\<bar>of_int c - d\<bar> \<le> 1000000001"
    using c d' by linarith
  have e: "\<bar>v - (of_int c - d)\<bar> \<le> 1 / 1000000"
    unfolding v_def using b by (rule abs_fl_bound) simp
  have s: "jsub (Fin (of_int c)) (lit (1 / 100)) = Fin v"
    using b by (simp add: jsub_def d(1) v_def d64_Fin)
  have "\<bar>v\<bar> \<le> 20000000000"
    using e b by linarith
  then have vb: "\<bar>v\<bar> \<le> 2 * 10 ^ 10"
    by simp
  have eq: "(of_int (100 * c - 1) :: rat) = 100 * of_int c - 1"
    by simp
  have "\<bar>100 * v - of_int (100 * c - 1)\<bar> \<le> 1 / 4"
    unfolding eq using e d' by linarith
  with vb have "roundToTwo (Fin v) = d64 (of_int (100 * c - 1) / 100)"
    by (rule roundToTwo_at)
  then show ?thesis
    using assms(3) s by (simp add: applyRounding_def)
qed

lemma round99_idem:
  assumes "0 \<le> x" and "x \<le> 10 ^ 9"
  shows "applyRounding ''.99'' (applyRounding ''.99'' (Fin x)) = applyRounding ''.99'' (Fin x)"
proof -
  define c where "c = \<lceil>x\<rceil>"
  have x: "x \<le> 1000000000" using assms(2) by simp
  have c0: "0 \<le> c"
    using assms(1) unfolding c_def by (simp add: ceiling_le_iff le_ceiling_iff)
  have "c \<le> 1000000000"
    using x unfolding c_def by (simp add: ceiling_le_iff)
  then have c1: "c \<le> 10 ^ 9" by simp
  note cb = of_int_bound [OF c0 c1]
  have first: "applyRounding ''.99'' (Fin x) = d64 (of_int (100 * c - 1) / 100)"
    using c0 c1 by (rule round99_at) (simp add: c_def)
  have "\<bar>100 * c - 1\<bar> \<le> 10 ^ 12"
    using c0 c1 by simp
  then obtain y where y: "d64 (of_int (100 * c - 1) / 100) = Fin y"
      "\<bar>y - of_int (100 * c - 1) / 100\<bar> \<le> 1 / 100000"
    by (rule cents_value)
  have eq: "(of_int (100 * c - 1) :: rat) / 100 = of_int c - 1 / 100"
    by (simp add: diff_divide_distrib)
  have y2: "\<bar>y - (of_int c - 1 / 100)\<bar> \<le> 1 / 100000"
    using y(2) unfolding eq .
  have "of_int c - 1 < y"
    using y2 by linarith
  moreover have "y \<le> of_int c"
    using y2 by linarith
  ultimately have "\<lceil>y\<rceil> = c"
    by (intro ceiling_unique) simp_all
  with c0 c1 have "applyRounding ''.99'' (Fin y) = d64 (of_int (100 * c - 1) / 100)"
    by (rule round99_at)
  then show ?thesis by (simp only: first y(1))
qed

lemma roundWhole_at:
  assumes "0 \<le> r" and "r \<le> 10 ^ 9 + 1" and "\<lfloor>x + 1 / 2\<rfloor> = r"
  shows "applyRounding ''whole'' (Fin x) = Fin (of_int r)"
proof -
  have "(of_int r :: rat) \<le> of_int (10 ^ 9 + 1)"
    using assms(2) by (simp only: of_int_le_iff)
  then have r: "(0::rat) \<le> of_int r" "(of_int r :: rat) \<le> 1000000001"
    using assms(1) by simp_all
  then have "\<bar>of_int r :: rat\<bar> \<le> 2 * 10 ^ 10"
    by simp
  moreover have "\<bar>100 * of_int r - (of_int (100 * r) :: rat)\<bar> \<le> 1 / 4"
    by simp
  ultimately have "roundToTwo (Fin (of_int r)) = d64 (of_int (100 * r) / 100)"
    by (rule roundToTwo_at)
  also have "\<dots> = d64 (of_int r)"
    by simp
  also have "\<dots> = Fin (fl (of_int r))"
    using r by (intro d64_Fin) simp
  also have "fl (of_int r) = of_int r"
    using assms(1,2) by (intro fl_of_int) simp
  finally show ?thesis
    using assms(3) by (simp add: applyRounding_def)
qed

lemma roundWhole_idem:
  assumes "0 \<le> x" and "x \<le> 10 ^ 9"
  shows "applyRounding ''whole'' (applyRounding ''whole'' (Fin x)) = applyRounding ''whole'' (Fin x)"
proof -
  define r where "r = \<lfloor>x + 1 / 2\<rfloor>"
  have x: "x \<le> 1000000000" using assms(2) by simp
  have r0: "0 \<le> r"
    using assms(1) unfolding r_def by (simp add: le_floor_iff)
  have "r \<le> 1000000001"
    using x unfolding r_def by (simp add: floor_le_iff) 
  then have r1: "r \<le> 10 ^ 9 + 1" by simp
  have first: "applyRounding ''whole'' (Fin x) = Fin (of_int r)"
    using r0 r1 by (rule roundWhole_at) (simp add: r_def)
  have "\<lfloor>(of_int r :: rat) + 1 / 2\<rfloor> = r"
    by (simp add: floor_eq_iff)
  with r0 r1 have "applyRounding ''whole'' (Fin (of_int r)) = Fin (of_int r)"
    by (rule roundWhole_at)
  then show ?thesis by (simp add: first)
qed

lemma round95_at:
  assumes "0 \<le> w" and "w \<le> 10 ^ 9" and "\<lfloor>x\<rfloor> = w"
  shows "applyRounding ''.95'' (Fin x) = d64 (of_int (100 * w + 95) / 100)
    \<and> jle (Math_abs (jsub (jadd (Math_floor (Fin x)) (lit (95 / 100))) (Fin x)))
           (Math_abs (jsub (jadd (Math_floor (Fin x)) (lit (195 / 100))) (Fin x)))
    \<and> \<not> jlt (Math_abs (jsub (jadd (Math_floor (Fin x)) (lit (195 / 100))) (Fin x)))
             (Math_abs (jsub (jadd (Math_floor (Fin x)) (lit (95 / 100))) (Fin x)))"
proof -
  obtain a where a: "lit (95 / 100) = Fin a" "\<bar>a - 95 / 100\<bar> \<le> 1 / 10 ^ 15"
    by (rule lit_value [of "95 / 100"]) simp
  obtain b where b: "lit (195 / 100) = Fin b" "\<bar>b - 195 / 100\<bar> \<le> 1 / 10 ^ 15"
    by (rule lit_value [of "195 / 100"]) simp
  have a': "\<bar>a - 95 / 100\<bar> \<le> 1 / 1000000000000000"
    using a(2) by simp
  have b': "\<bar>b - 195 / 100\<bar> \<le> 1 / 1000000000000000"
    using b(2) by simp
  note wb = of_int_bound [OF assms(1,2)]
  have x: "of_int w \<le> x" "x < of_int w + 1"
    using assms(3) by linarith+
  define c1 where "c1 = fl (of_int w + a)"
  define c2 where "c2 = fl (of_int w + b)"
  have b1: "\<bar>of_int w + a\<bar> \<le> 1000000002" and b2: "\<bar>of_int w + b\<bar> \<le> 1000000002"
    using wb a' b' by linarith+
  have e1: "\<bar>c1 - (of_int w + a)\<bar> \<le> 1 / 1000000"
    unfolding c1_def using b1 by (rule abs_fl_bound) simp
  have e2: "\<bar>c2 - (of_int w + b)\<bar> \<le> 1 / 1000000"
    unfolding c2_def using b2 by (rule abs_fl_bound) simp
  have "jadd (Fin (of_int w)) (Fin a) = Fin c1"
    using b1 by (simp add: c1_def d64_Fin)
  then have j1: "jadd (Math_floor (Fin x)) (lit (95 / 100)) = Fin c1"
    by (simp only: Math_floor.simps assms(3) a(1))
  have "jadd (Fin (of_int w)) (Fin b) = Fin c2"
    using b2 by (simp add: c2_def d64_Fin)
  then have j2: "jadd (Math_floor (Fin x)) (lit (195 / 100)) = Fin c2"
    by (simp only: Math_floor.simps assms(3) b(1))
  define g1 where "g1 = fl (c1 - x)"
  define g2 where "g2 = fl (c2 - x)"
  have d1: "\<bar>c1 - x\<bar> \<le> 2" and d2: "\<bar>c2 - x\<bar> \<le> 2"
    using e1 e2 a' b' x by linarith+
  have f1: "\<bar>g1 - (c1 - x)\<bar> \<le> 1 / 1000000000000000"
    unfolding g1_def using d1 by (rule abs_fl_bound) simp
  have f2: "\<bar>g2 - (c2 - x)\<bar> \<le> 1 / 1000000000000000"
    unfolding g2_def using d2 by (rule abs_fl_bound) simp
  have s1: "jsub (Fin c1) (Fin x) = Fin g1"
    using d1 by (simp add: jsub_def g1_def d64_Fin)
  have s2: "jsub (Fin c2) (Fin x) = Fin g2"
    using d2 by (simp add: jsub_def g2_def d64_Fin)
  have le: "\<bar>g1\<bar> \<le> \<bar>g2\<bar>"
    using e1 e2 a' b' f1 f2 x by linarith
  have "\<bar>c1\<bar> \<le> 20000000000"
    using e1 b1 by linarith
  then have vb: "\<bar>c1\<bar> \<le> 2 * 10 ^ 10"
    by simp
  have eq: "(of_int (100 * w + 95) :: rat) = 100 * of_int w + 95"
    by simp
  have "\<bar>100 * c1 - of_int (100 * w + 95)\<bar> \<le> 1 / 4"
    unfolding eq using e1 a' by linarith
  with vb have r: "roundToTwo (Fin c1) = d64 (of_int (100 * w + 95) / 100)"
    by (rule roundToTwo_at)
  have "applyRounding ''.95'' (Fin x) =
      (let candidate1 = jadd (Math_floor (Fin x)) (lit (95 / 100));
           candidate2 = jadd (Math_floor (Fin x)) (lit (195 / 100));
           diff1 = Math_abs (jsub candidate1 (Fin x));
           diff2 = Math_abs (jsub candidate2 (Fin x))
       in roundToTwo (if jle diff1 diff2 then candidate1 else candidate2))"
    by (simp add: applyRounding_def Let_def)
  then have "applyRounding ''.95'' (Fin x) = d64 (of_int (100 * w + 95) / 100)"
    unfolding Let_def j1 j2 s1 s2 using le r by simp
  then show ?thesis
    unfolding j1 j2 s1 s2 using le by simp
qed

lemma round95_idem:
  assumes "0 \<le> x" and "x \<le> 10 ^ 9"
  shows "applyRounding ''.95'' (applyRounding ''.95'' (Fin x)) = applyRounding ''.95'' (Fin x)"
proof -
  define w where "w = \<lfloor>x\<rfloor>"
  have x: "x \<le> 1000000000" using assms(2) by simp
  have w0: "0 \<le> w"
    using assms(1) unfolding w_def by simp
  have "w \<le> 1000000000"
    using x unfolding w_def by (simp add: floor_le_iff)
  then have w1: "w \<le> 10 ^ 9" by simp
  note wb = of_int_bound [OF w0 w1]
  have first: "applyRounding ''.95'' (Fin x) = d64 (of_int (100 * w + 95) / 100)"
    using round95_at [OF w0 w1, of x] by (simp add: w_def)
  have "\<bar>100 * w + 95\<bar> \<le> 10 ^ 12"
    using w0 w1 by simp
  then obtain y where y: "d64 (of_int (100 * w + 95) / 100) = Fin y"
      "\<bar>y - of_int (100 * w + 95) / 100\<bar> \<le> 1 / 100000"
    by (rule cents_value)
  have eq: "(of_int (100 * w + 95) :: rat) / 100 = of_int w + 95 / 100"
    by (simp add: add_divide_distrib)
  have y2: "\<bar>y - (of_int w + 95 / 100)\<bar> \<le> 1 / 100000"
    using y(2) unfolding eq .
  have "of_int w \<le> y"
    using y2 by linarith
  moreover have "y < of_int w + 1"
    using y2 by linarith
  ultimately have "\<lfloor>y\<rfloor> = w"
    by (intro floor_unique) simp_all
  with w0 w1 have "applyRounding ''.95'' (Fin y) = d64 (of_int (100 * w + 95) / 100)"
    using round95_at [of w y] by simp
  then show ?thesis by (simp only: first y(1))
qed

lemma applyRounding_other:
  "m \<noteq> ''.99'' \<Longrightarrow> m \<noteq> ''.95'' \<Longrightarrow> m \<noteq> ''whole'' \<Longrightarrow> applyRounding m x = roundToTwo x"
  by (simp add: applyRounding_def)

lemmas round_eval = applyRounding_def roundToTwo_def EPSILON_def jsub_def fl_eval

section \<open>Rounding policy\<close>

text \<open>
  Claim C7, as stated: rounding is idempotent for every price \<open>x\<close> and every rounding
  mode. It fails in mode \<^verbatim>\<open>none\<close> at the double \<open>35614070150894.375\<close>, where
  neighbouring doubles are \<open>1/128\<close> apart: the first rounding gives the double nearest
  \<open>35614070150894.38\<close>, and rounding that gives the double nearest
  \<open>35614070150894.39\<close>.
\<close>

theorem applyRounding_not_idempotent:
  "applyRounding ''none'' (Fin (284912561207155 / 8)) = lit (3561407015089438 / 100)
   \<and> applyRounding ''none'' (applyRounding ''none'' (Fin (284912561207155 / 8)))
       = lit (3561407015089439 / 100)
   \<and> lit (3561407015089439 / 100) \<noteq> lit (3561407015089438 / 100)"
  by (simp add: round_eval)

text \<open>
  Claim C7, amended: for every price \<open>x\<close> with \<open>0 \<le> x \<le> 10\<^sup>9\<close> and every setting of
  \<^verbatim>\<open>ROUND_MODE\<close> (\<^verbatim>\<open>none\<close>, \<^verbatim>\<open>.99\<close>, \<^verbatim>\<open>.95\<close>, \<^verbatim>\<open>whole\<close>, or anything else),
  applying the rounding policy twice gives the same result as applying it once.
\<close>

theorem applyRounding_idempotent:
  assumes "0 \<le> x" and "x \<le> 10 ^ 9"
  shows "applyRounding m (applyRounding m (Fin x)) = applyRounding m (Fin x)"
proof -
  consider "m = ''.99''" | "m = ''.95''" | "m = ''whole''"
    | "m \<noteq> ''.99''" "m \<noteq> ''.95''" "m \<noteq> ''whole''"
    by blast
  then show ?thesis
  proof cases
    case 1
    with assms show ?thesis by (simp only: round99_idem)
  next
    case 2
    with assms show ?thesis by (simp only: round95_idem)
  next
    case 3
    with assms show ?thesis by (simp only: roundWhole_idem)
  next
    case 4
    have "\<bar>x\<bar> \<le> 10 ^ 9"
      using assms by simp
    with 4 show ?thesis by (simp add: applyRounding_other roundToTwo_idem)
  qed
qed

theorem applyRounding_idempotent_witness:
  "(0::rat) \<le> 573 / 128 \<and> (573 / 128 :: rat) \<le> 10 ^ 9
   \<and> applyRounding ''.99'' (Fin (573 / 128)) = lit (499 / 100)
   \<and> applyRounding ''.99'' (lit (499 / 100)) = lit (499 / 100)"
proof -
  have v: "applyRounding ''.99'' (Fin (573 / 128)) = lit (499 / 100)"
    by (simp add: round_eval)
  show ?thesis
    using applyRounding_idempotent [of "573 / 128" "''.99''"] unfolding v by simp
qed

text \<open>
  Claim C10, as stated: in mode \<^verbatim>\<open>.95\<close> the result is \<open>floor(price) + 0.95\<close> for every
  non-negative price. At the price \<open>35614070150894\<close> the lower candidate
  \<^verbatim>\<open>whole + 0.95\<close> is chosen, and it is the double nearest \<open>35614070150894.95\<close>; but
  \<^verbatim>\<open>roundToTwo\<close> moves it to the next double, the one nearest \<open>35614070150894.96\<close>.
\<close>

theorem round95_not_floor_plus_95:
  "applyRounding ''.95'' (Fin 35614070150894) = lit (3561407015089496 / 100)
   \<and> jadd (Math_floor (Fin 35614070150894)) (lit (95 / 100)) = lit (3561407015089495 / 100)
   \<and> d64 (of_int \<lfloor>35614070150894 :: rat\<rfloor> + 95 / 100) = lit (3561407015089495 / 100)
   \<and> lit (3561407015089496 / 100) \<noteq> lit (3561407015089495 / 100)"
  by (simp add: round_eval)

text \<open>
  Claim C10, amended: in rounding mode \<^verbatim>\<open>.95\<close>, for every price \<open>x\<close> with
  \<open>0 \<le> x \<le> 10\<^sup>9\<close> the result is the double nearest \<open>floor(x) + 0.95\<close>: the test
  \<^verbatim>\<open>diff1 <= diff2\<close> succeeds, the higher candidate \<open>floor(x) + 1.95\<close> is not strictly
  closer to the input, and it is not chosen.
\<close>

theorem round95_is_floor_plus_95:
  assumes "0 \<le> x" and "x \<le> 10 ^ 9"
  shows "applyRounding ''.95'' (Fin x) = d64 (of_int \<lfloor>x\<rfloor> + 95 / 100)
    \<and> jle (Math_abs (jsub (jadd (Math_floor (Fin x)) (lit (95 / 100))) (Fin x)))
           (Math_abs (jsub (jadd (Math_floor (Fin x)) (lit (195 / 100))) (Fin x)))
    \<and> \<not> jlt (Math_abs (jsub (jadd (Math_floor (Fin x)) (lit (195 / 100))) (Fin x)))
             (Math_abs (jsub (jadd (Math_floor (Fin x)) (lit (95 / 100))) (Fin x)))"
proof -
  have x: "x \<le> 1000000000" using assms(2) by simp
  have w0: "0 \<le> \<lfloor>x\<rfloor>"
    using assms(1) by simp
  have "\<lfloor>x\<rfloor> \<le> 1000000000"
    using x by (simp add: floor_le_iff)
  then have w1: "\<lfloor>x\<rfloor> \<le> 10 ^ 9" by simp
  have eq: "(of_int (100 * \<lfloor>x\<rfloor> + 95) :: rat) / 100 = of_int \<lfloor>x\<rfloor> + 95 / 100"
    by (simp add: add_divide_distrib)
  show ?thesis
    using round95_at [OF w0 w1 refl] unfolding eq .
qed

theorem round95_is_floor_plus_95_witness:
  "(0::rat) \<le> 29 / 4 \<and> (29 / 4 :: rat) \<le> 10 ^ 9
   \<and> applyRounding ''.95'' (Fin (29 / 4)) = lit (795 / 100)"
proof -
  have f: "\<lfloor>29 / 4 :: rat\<rfloor> = 7" by simp
  show ?thesis
    using round95_is_floor_plus_95 [of "29 / 4"] by (simp add: f lit_def)
qed

section \<open>Price formula\<close>

text \<open>
  The formula value before rounding, as the doubles compute it, for a cost up to \<open>10\<^sup>8\<close>:
  it inverts back to the cost within a millionth.
\<close>

lemma raw_price:
  assumes "0 \<le> cost" and "cost \<le> 10 ^ 8"
  obtains p where "jdiv (jadd (Fin cost) (lit (30 / 100))) (lit (961 / 1000)) = Fin p"
    and "\<bar>p * (961 / 1000) - 30 / 100 - cost\<bar> \<le> 1 / 1000000"
proof -
  obtain a where a: "lit (30 / 100) = Fin a" "\<bar>a - 30 / 100\<bar> \<le> 1 / 10 ^ 15"
    by (rule lit_value [of "30 / 100"]) simp
  obtain b where b: "lit (961 / 1000) = Fin b" "\<bar>b - 961 / 1000\<bar> \<le> 1 / 10 ^ 15"
    by (rule lit_value [of "961 / 1000"]) simp
  have a': "\<bar>a - 30 / 100\<bar> \<le> 1 / 1000000000000000"
    using a(2) by simp
  have b': "\<bar>b - 961 / 1000\<bar> \<le> 1 / 1000000000000000"
    using b(2) by simp
  have c: "cost \<le> 100000000"
    using assms(2) by simp
  have b0: "0 < b" "b \<noteq> 0" "96 / 100 \<le> b"
    using b' by linarith+
  define s where "s = fl (cost + a)"
  have sb: "\<bar>cost + a\<bar> \<le> 100000001"
    using assms(1) c a' by linarith
  have se: "\<bar>s - (cost + a)\<bar> \<le> 2 / 100000000"
    unfolding s_def using sb by (rule abs_fl_bound) simp
  have s1: "jadd (Fin cost) (Fin a) = Fin s"
    using sb by (simp add: s_def d64_Fin)
  define u where "u = s / b"
  have ub: "u * b = s"
    using b0 by (simp add: u_def)
  have "\<bar>u\<bar> * b = \<bar>s\<bar>"
    using b0 ub by (metis abs_mult abs_of_pos)
  moreover have "\<bar>u\<bar> * (96 / 100) \<le> \<bar>u\<bar> * b"
    using b0(3) by (intro mult_left_mono) simp_all
  ultimately have uB: "\<bar>u\<bar> \<le> 105000000"
    using se sb by linarith
  define p where "p = fl u"
  have pe: "\<bar>p - u\<bar> \<le> 2 / 100000000"
    unfolding p_def using uB by (rule abs_fl_bound) simp
  have "\<bar>u\<bar> \<le> 10 ^ 15"
    using uB by simp
  then have s2: "jdiv (Fin s) (Fin b) = Fin p"
    using b0 by (simp add: p_def u_def d64_Fin)
  define r where "r = u * (961 / 1000 - b)"
  have "\<bar>r\<bar> = \<bar>u\<bar> * \<bar>961 / 1000 - b\<bar>"
    by (simp add: r_def abs_mult)
  also have "\<dots> \<le> 105000000 * (1 / 1000000000000000)"
  proof (rule mult_mono)
    show "\<bar>961 / 1000 - b\<bar> \<le> 1 / 1000000000000000"
      using b' by linarith
  qed (use uB in simp_all)
  finally have rb: "\<bar>r\<bar> \<le> 105 / 1000000000" by simp
  have "u * (961 / 1000) = u * b + r"
    by (simp add: r_def algebra_simps)
  then have id: "u * (961 / 1000) = s + r"
    by (simp only: ub)
  have "\<bar>p * (961 / 1000) - 30 / 100 - cost\<bar> \<le> 1 / 1000000"
    using id pe se a' rb by linarith
  moreover have "jdiv (jadd (Fin cost) (lit (30 / 100))) (lit (961 / 1000)) = Fin p"
    by (simp only: a(1) b(1) s1 s2)
  ultimately show ?thesis
    by (intro that)
qed

text \<open>\<open>roundToTwo\<close> moves a number of moderate size by little more than half a cent.\<close>

lemma roundToTwo_near:
  assumes "\<bar>x\<bar> \<le> 10 ^ 9"
  obtains q where "roundToTwo (Fin x) = Fin q" and "\<bar>q - x\<bar> \<le> 504 / 100000"
proof -
  from assms obtain k where k: "roundToTwo (Fin x) = d64 (of_int k / 100)" "\<bar>k\<bar> \<le> 10 ^ 12"
      "\<bar>of_int k - 100 * x\<bar> \<le> 1 / 2 + 3 / 1000"
    by (rule roundToTwo_range)
  from k(2) obtain q where q: "d64 (of_int k / 100) = Fin q"
      "\<bar>q - of_int k / 100\<bar> \<le> 1 / 100000"
    by (rule cents_value)
  have "\<bar>q - x\<bar> \<le> 504 / 100000"
    using q(2) k(3) by linarith
  with k(1) q(1) show ?thesis
    by (intro that [of q]) simp_all
qed

text \<open>In every mode the rounded price is less than one unit away from the input.\<close>

lemma applyRounding_near:
  assumes "0 \<le> x" and "x \<le> 10 ^ 9"
  obtains q where "applyRounding m (Fin x) = Fin q" and "\<bar>q - x\<bar> \<le> 991 / 1000"
proof -
  have x: "x \<le> 1000000000" using assms(2) by simp
  consider "m = ''.99''" | "m = ''.95''" | "m = ''whole''"
    | "m \<noteq> ''.99''" "m \<noteq> ''.95''" "m \<noteq> ''whole''"
    by blast
  then show ?thesis
  proof cases
    case 1
    define c where "c = \<lceil>x\<rceil>"
    have c0: "0 \<le> c"
      using assms(1) unfolding c_def by (simp add: ceiling_le_iff le_ceiling_iff)
    have "c \<le> 1000000000"
      using x unfolding c_def by (simp add: ceiling_le_iff)
    then have c1: "c \<le> 10 ^ 9" by simp
    have first: "applyRounding ''.99'' (Fin x) = d64 (of_int (100 * c - 1) / 100)"
      using c0 c1 by (rule round99_at) (simp add: c_def)
    have "\<bar>100 * c - 1\<bar> \<le> 10 ^ 12"
      using c0 c1 by simp
    then obtain y where y: "d64 (of_int (100 * c - 1) / 100) = Fin y"
        "\<bar>y - of_int (100 * c - 1) / 100\<bar> \<le> 1 / 100000"
      by (rule cents_value)
    have eq: "(of_int (100 * c - 1) :: rat) / 100 = of_int c - 1 / 100"
      by (simp add: diff_divide_distrib)
    have y2: "\<bar>y - (of_int c - 1 / 100)\<bar> \<le> 1 / 100000"
      using y(2) unfolding eq .
    have cx: "of_int c - 1 < x" "x \<le> of_int c"
      unfolding c_def by linarith+
    have "\<bar>y - x\<bar> \<le> 991 / 1000"
      using y2 cx by linarith
    with first y(1) 1 show ?thesis
      by (intro that [of y]) simp_all
  next
    case 2
    define w where "w = \<lfloor>x\<rfloor>"
    have w0: "0 \<le> w"
      using assms(1) unfolding w_def by simp
    have "w \<le> 1000000000"
      using x unfolding w_def by (simp add: floor_le_iff)
    then have w1: "w \<le> 10 ^ 9" by simp
    have first: "applyRounding ''.95'' (Fin x) = d64 (of_int (100 * w + 95) / 100)"
      using round95_at [OF w0 w1, of x] by (simp add: w_def)
    have "\<bar>100 * w + 95\<bar> \<le> 10 ^ 12"
      using w0 w1 by simp
    then obtain y where y: "d64 (of_int (100 * w + 95) / 100) = Fin y"
        "\<bar>y - of_int (100 * w + 95) / 100\<bar> \<le> 1 / 100000"
      by (rule cents_value)
    have eq: "(of_int (100 * w + 95) :: rat) / 100 = of_int w + 95 / 100"
      by (simp add: add_divide_distrib)
    have y2: "\<bar>y - (of_int w + 95 / 100)\<bar> \<le> 1 / 100000"
      using y(2) unfolding eq .
    have wx: "of_int w \<le> x" "x < of_int w + 1"
      unfolding w_def by linarith+
    have "\<bar>y - x\<bar> \<le> 991 / 1000"
      using y2 wx by linarith
    with first y(1) 2 show ?thesis
      by (intro that [of y]) simp_all
  next
    case 3
    define r where "r = \<lfloor>x + 1 / 2\<rfloor>"
    have r0: "0 \<le> r"
      using assms(1) unfolding r_def by simp
    have "r \<le> 1000000001"
      using x unfolding r_def by (simp add: floor_le_iff)
    then have r1: "r \<le> 10 ^ 9 + 1" by simp
    have first: "applyRounding ''whole'' (Fin x) = Fin (of_int r)"
      using r0 r1 by (rule roundWhole_at) (simp add: r_def)
    have rx: "of_int r \<le> x + 1 / 2" "x + 1 / 2 < of_int r + 1"
      unfolding r_def by linarith+
    have "\<bar>of_int r - x\<bar> \<le> 991 / 1000"
      using rx by linarith
    with first 3 show ?thesis
      by (intro that [of "of_int r"]) simp_all
  next
    case 4
    have "\<bar>x\<bar> \<le> 10 ^ 9"
      using assms by simp
    then obtain q where q: "roundToTwo (Fin x) = Fin q" "\<bar>q - x\<bar> \<le> 504 / 100000"
      by (rule roundToTwo_near)
    have "\<bar>q - x\<bar> \<le> 991 / 1000"
      using q(2) by linarith
    with q(1) 4 show ?thesis
      by (intro that [of q]) (simp_all add: applyRounding_other)
  qed
qed

text \<open>
  The inversion check computed by the program's arithmetic on a price \<open>q\<close>: the result
  is within a millionth of the exact value \<open>q * 0.961 - 0.30 - cost\<close>.
\<close>

lemma float_gap:
  assumes "\<bar>q\<bar> \<le> 2 * 10 ^ 8" and "\<bar>cost\<bar> \<le> 10 ^ 8"
  obtains g where
    "jsub (jsub (jmul (Fin q) (lit (961 / 1000))) (lit (30 / 100))) (Fin cost) = Fin g"
    and "\<bar>g - (q * (961 / 1000) - 30 / 100 - cost)\<bar> \<le> 1 / 1000000"
proof -
  obtain a where a: "lit (30 / 100) = Fin a" "\<bar>a - 30 / 100\<bar> \<le> 1 / 10 ^ 15"
    by (rule lit_value [of "30 / 100"]) simp
  obtain b where b: "lit (961 / 1000) = Fin b" "\<bar>b - 961 / 1000\<bar> \<le> 1 / 10 ^ 15"
    by (rule lit_value [of "961 / 1000"]) simp
  have a': "\<bar>a - 30 / 100\<bar> \<le> 1 / 1000000000000000"
    using a(2) by simp
  have b': "\<bar>b - 961 / 1000\<bar> \<le> 1 / 1000000000000000"
    using b(2) by simp
  have q: "\<bar>q\<bar> \<le> 200000000" and c: "\<bar>cost\<bar> \<le> 100000000"
    using assms by simp_all
  define r where "r = q * (b - 961 / 1000)"
  have "\<bar>r\<bar> = \<bar>q\<bar> * \<bar>b - 961 / 1000\<bar>"
    by (simp add: r_def abs_mult)
  also have "\<dots> \<le> 200000000 * (1 / 1000000000000000)"
    using q b' by (intro mult_mono) simp_all
  finally have rb: "\<bar>r\<bar> \<le> 2 / 10000000" by simp
  have qb: "q * b = q * (961 / 1000) + r"
    by (simp add: r_def algebra_simps)
  have w: "\<bar>q * b\<bar> \<le> 200000000"
    unfolding qb using q rb by linarith
  define m where "m = fl (q * b)"
  have me: "\<bar>m - q * b\<bar> \<le> 3 / 100000000"
    unfolding m_def using w by (rule abs_fl_bound) simp
  have "\<bar>q * b\<bar> \<le> 10 ^ 15"
    using w by simp
  then have j1: "jmul (Fin q) (Fin b) = Fin m"
    by (simp add: m_def d64_Fin)
  define h where "h = fl (m - a)"
  have hb: "\<bar>m - a\<bar> \<le> 200000001"
    using me w a' by linarith
  have he: "\<bar>h - (m - a)\<bar> \<le> 3 / 100000000"
    unfolding h_def using hb by (rule abs_fl_bound) simp
  have "\<bar>m - a\<bar> \<le> 10 ^ 15"
    using hb by simp
  then have j2: "jsub (Fin m) (Fin a) = Fin h"
    by (simp add: jsub_def h_def d64_Fin)
  define g where "g = fl (h - cost)"
  have gb: "\<bar>h - cost\<bar> \<le> 400000000"
    using he hb c by linarith
  have ge: "\<bar>g - (h - cost)\<bar> \<le> 5 / 100000000"
    unfolding g_def using gb by (rule abs_fl_bound) simp
  have "\<bar>h - cost\<bar> \<le> 10 ^ 15"
    using gb by simp
  then have j3: "jsub (Fin h) (Fin cost) = Fin g"
    by (simp add: jsub_def g_def d64_Fin)
  have "\<bar>g - (q * (961 / 1000) - 30 / 100 - cost)\<bar> \<le> 1 / 1000000"
    using ge he me qb rb a' by linarith
  moreover have
    "jsub (jsub (jmul (Fin q) (lit (961 / 1000))) (lit (30 / 100))) (Fin cost) = Fin g"
    by (simp only: a(1) b(1) j1 j2 j3)
  ultimately show ?thesis
    by (intro that)
qed

lemma price_of_4: "computePriceFromCost ''none'' (Num (Fin 4)) = lit (447 / 100)"
  by (simp add: computePriceFromCost_def round_eval)

text \<open>
  Claim C1, as stated: for every cost \<open>\<ge> 0\<close> the returned price satisfies
  \<open>price * 0.961 - 0.30 = cost\<close> within floating tolerance. It fails: for the cost
  \<open>4\<close> and rounding mode \<^verbatim>\<open>none\<close> the returned price is the double \<open>4.47\<close>, and
  \<open>4.47 * 0.961 - 0.30\<close> is \<open>3.99567\<close>, which misses the cost by \<open>0.00433\<close>, more than a
  thousandth.
\<close>

theorem inversion_fails_at_cost_4:
  "computePriceFromCost ''none'' (Num (Fin 4)) = lit (447 / 100)
   \<and> \<not> invertsWithin (1 / 1000) ''none'' 4"
  by (simp add: invertsWithin_def inversionGap_def price_of_4) (simp add: jsub_def fl_eval)

text \<open>
  Claim C1, amended. For every cost from \<open>0\<close> to \<open>10\<^sup>8\<close>: the formula value before
  rounding, \<open>P = (cost + 0.30) / 0.961\<close> as the program computes it, satisfies
  \<open>P * 0.961 - 0.30 = cost\<close> within two millionths, the left side computed by the
  program's arithmetic; the returned price is the rounding of \<open>P\<close>, and
  \<open>price * 0.961 - 0.30\<close>, computed likewise, differs from the cost by at most half a cent
  in rounding mode \<^verbatim>\<open>none\<close>, and by less than \<open>0.961\<close> in any rounding mode.
\<close>

theorem inversion_up_to_rounding:
  assumes "0 \<le> cost" and "cost \<le> 10 ^ 8"
  shows "(\<exists>p g. jdiv (jadd (Fin cost) (lit (30 / 100))) (lit (961 / 1000)) = Fin p
            \<and> jsub (jsub (jmul (Fin p) (lit (961 / 1000))) (lit (30 / 100))) (Fin cost) = Fin g
            \<and> \<bar>g\<bar> \<le> 2 / 1000000)
    \<and> computePriceFromCost mode (Num (Fin cost)) =
        applyRounding mode (jdiv (jadd (Fin cost) (lit (30 / 100))) (lit (961 / 1000)))
    \<and> invertsWithin (1 / 200) ''none'' cost
    \<and> invertsWithin (961 / 1000) mode cost"
proof -
  from assms obtain p where p: "jdiv (jadd (Fin cost) (lit (30 / 100))) (lit (961 / 1000)) = Fin p"
      "\<bar>p * (961 / 1000) - 30 / 100 - cost\<bar> \<le> 1 / 1000000"
    by (rule raw_price)
  have c: "cost \<le> 100000000"
    using assms(2) by simp
  then have cb: "\<bar>cost\<bar> \<le> 10 ^ 8"
    using assms(1) by simp
  have p0: "0 \<le> p" and pu: "p \<le> 105000000"
    using p(2) assms(1) c by linarith+
  then have p1: "p \<le> 10 ^ 9" "\<bar>p\<bar> \<le> 10 ^ 9" "\<bar>p\<bar> \<le> 2 * 10 ^ 8"
    by simp_all
  obtain g where g: "jsub (jsub (jmul (Fin p) (lit (961 / 1000))) (lit (30 / 100))) (Fin cost)
      = Fin g" "\<bar>g - (p * (961 / 1000) - 30 / 100 - cost)\<bar> \<le> 1 / 1000000"
    using p1(3) cb by (rule float_gap)
  have "\<bar>g\<bar> \<le> 2 / 1000000"
    using g(2) p(2) by linarith
  with p(1) g(1) have raw: "\<exists>p g. jdiv (jadd (Fin cost) (lit (30 / 100))) (lit (961 / 1000)) = Fin p
            \<and> jsub (jsub (jmul (Fin p) (lit (961 / 1000))) (lit (30 / 100))) (Fin cost) = Fin g
            \<and> \<bar>g\<bar> \<le> 2 / 1000000"
    by blast
  have price: "computePriceFromCost m (Num (Fin cost)) = applyRounding m (Fin p)" for m
    unfolding computePriceFromCost_def Let_def parseFloatC.simps p(1) ..
  obtain q where q: "roundToTwo (Fin p) = Fin q" "\<bar>q - p\<bar> \<le> 504 / 100000"
    using p1(2) by (rule roundToTwo_near)
  have qp: "computePriceFromCost ''none'' (Num (Fin cost)) = Fin q"
    using q(1) by (simp add: price applyRounding_def)
  have "\<bar>q\<bar> \<le> 200000000"
    using q(2) p0 pu by linarith
  then have "\<bar>q\<bar> \<le> 2 * 10 ^ 8"
    by simp
  then obtain d where d: "jsub (jsub (jmul (Fin q) (lit (961 / 1000))) (lit (30 / 100))) (Fin cost)
      = Fin d" "\<bar>d - (q * (961 / 1000) - 30 / 100 - cost)\<bar> \<le> 1 / 1000000"
    using cb by (rule float_gap)
  have "\<bar>d\<bar> \<le> 1 / 200"
    using d(2) q(2) p(2) by linarith
  with d(1) have none: "invertsWithin (1 / 200) ''none'' cost"
    by (simp add: invertsWithin_def inversionGap_def qp)
  obtain q' where q': "applyRounding mode (Fin p) = Fin q'" "\<bar>q' - p\<bar> \<le> 991 / 1000"
    using p0 p1(1) by (rule applyRounding_near)
  have qp': "computePriceFromCost mode (Num (Fin cost)) = Fin q'"
    using q'(1) by (simp add: price)
  have "\<bar>q'\<bar> \<le> 200000000"
    using q'(2) p0 pu by linarith
  then have "\<bar>q'\<bar> \<le> 2 * 10 ^ 8"
    by simp
  then obtain d' where d': "jsub (jsub (jmul (Fin q') (lit (961 / 1000))) (lit (30 / 100))) (Fin cost)
      = Fin d'" "\<bar>d' - (q' * (961 / 1000) - 30 / 100 - cost)\<bar> \<le> 1 / 1000000"
    using cb by (rule float_gap)
  have "\<bar>d'\<bar> \<le> 961 / 1000"
    using d'(2) q'(2) p(2) by linarith
  with d'(1) have any: "invertsWithin (961 / 1000) mode cost"
    by (simp add: invertsWithin_def inversionGap_def qp')
  have "computePriceFromCost mode (Num (Fin cost)) =
        applyRounding mode (jdiv (jadd (Fin cost) (lit (30 / 100))) (lit (961 / 1000)))"
    unfolding computePriceFromCost_def Let_def parseFloatC.simps ..
  with raw none any show ?thesis
    by blast
qed

theorem inversion_up_to_rounding_witness:
  "(0::rat) \<le> 4 \<and> (4::rat) \<le> 10 ^ 8 \<and> invertsWithin (1 / 200) ''none'' 4
   \<and> invertsWithin (961 / 1000) ''.99'' 4"
  using inversion_up_to_rounding [of 4 "''.99''"] by simp

section \<open>Supplier routing\<close>

lemma includes_str_sublist: "includes_str s t = sublist t s"
  by (induction s) (simp_all add: sublist_Cons_right)

lemma includes_str_iff: "includes_str s t \<longleftrightarrow> (\<exists>pre post. s = pre @ t @ post)"
  by (simp add: includes_str_sublist sublist_def)

lemma isPrintify_iff:
  "isPrintify p \<longleftrightarrow> containsMarker (p_vendor p) \<or> containsMarker (p_title p)"
  by (simp add: isPrintify_def containsMarker_def includes_str_iff Let_def)

lemma supplierCostOf_table:
  "\<not> isPrintify p \<Longrightarrow> tab s = Some c \<Longrightarrow> truthyN c \<Longrightarrow>
   supplierCostOf cfg tab remote p s = Some (Num c)"
  by (simp add: supplierCostOf_def lookupCost_def)

text \<open>
  A SKU with no row in the feed has the cost \<open>0\<close>, unless it names a property of
  \<^verbatim>\<open>Object.prototype\<close>: then the lookup gives that member.
\<close>

lemma supplierCostOf_absent:
  "\<not> isPrintify p \<Longrightarrow> tab s = None \<Longrightarrow> s \<notin> set objectPrototypeKeys \<Longrightarrow>
   supplierCostOf cfg tab remote p s = Some (Num (Fin 0))"
  by (simp add: supplierCostOf_def lookupCost_def)

lemma supplierCostOf_member:
  "\<not> isPrintify p \<Longrightarrow> tab s = None \<Longrightarrow> s \<in> set objectPrototypeKeys \<Longrightarrow>
   supplierCostOf cfg tab remote p s = Some Member"
  by (simp add: supplierCostOf_def lookupCost_def)

lemma generic_not_printify: "\<not> isPrintify (genericProduct vs)"
  by code_simp

lemma printify_is_printify: "isPrintify (printifyProduct vs)"
  by code_simp

lemmas parse_simps = parseFloat_def splitSign_def isSpace_def isDigit_def digitsVal_def
  exponentPart_def pow10_def

lemma parseFloat_4_00: "parseFloat ''4.00'' = Fin 4"
  by (simp add: parse_simps fl_eval)

lemma trim_SKU123: "trim ''SKU123'' = ''SKU123''"
  by (simp add: trim_def isSpace_def)

lemma table_SKU123: "loadAliExpressCSV feedSKU123 ''SKU123'' = Some (Fin 4)"
  by (simp add: loadAliExpressCSV_def feedSKU123_def loadRow_def assign_def rowSku_def
      rowCost_def orS_def trim_SKU123 parseFloat_4_00 isNaN_def Let_def)

lemma table_NOCOST: "loadAliExpressCSV feedSKU123 ''NOCOST'' = None"
  by (simp add: loadAliExpressCSV_def feedSKU123_def loadRow_def assign_def rowSku_def
      rowCost_def orS_def trim_SKU123 parseFloat_4_00 isNaN_def Let_def)

text \<open>
  Claim C5. A catalog record whose vendor contains the marker string, case-insensitively,
  is routed to the remote-catalog cost lookup: its supplier cost is what
  \<^verbatim>\<open>getPrintifyVariantCostBySku\<close> returns. A record whose vendor and title both lack the
  marker is routed to the bulk-feed lookup: its supplier cost is
  \<^verbatim>\<open>aliexpressCostBySku[sku] || 0\<close>, the entry of the cost table or \<open>0\<close>. The witness
  takes the vendors \<^verbatim>\<open>Printify Prints\<close> and \<^verbatim>\<open>Generic\<close>.
\<close>

theorem routing_by_marker:
  "(containsMarker (p_vendor p) \<longrightarrow>
      supplierCostOf cfg tab remote p s
        = map_option (\<lambda>r. Num (fst r)) (getPrintifyVariantCostBySku cfg remote s))
   \<and> (\<not> containsMarker (p_vendor p) \<and> \<not> containsMarker (p_title p) \<longrightarrow>
      supplierCostOf cfg tab remote p s =
        Some (case lookupCost tab s of
                Some c \<Rightarrow> if truthyC c then c else Num (Fin 0)
              | None \<Rightarrow> Num (Fin 0)))"
  by (simp add: supplierCostOf_def isPrintify_iff)

theorem routing_by_marker_witness:
  "containsMarker (p_vendor (printifyProduct []))
   \<and> supplierCostOf (shopConfig ''none'') (loadAliExpressCSV feedSKU123) emptyCatalog
        (printifyProduct []) ''SKU123''
      = map_option (\<lambda>r. Num (fst r))
          (getPrintifyVariantCostBySku (shopConfig ''none'') emptyCatalog ''SKU123'')
   \<and> \<not> containsMarker (p_vendor (genericProduct []))
   \<and> \<not> containsMarker (p_title (genericProduct []))
   \<and> supplierCostOf (shopConfig ''none'') (loadAliExpressCSV feedSKU123) emptyCatalog
        (genericProduct []) ''SKU123''
      = Some (Num (Fin 4))"
proof -
  have v: "containsMarker (p_vendor (printifyProduct []))"
    using printify_is_printify [of "[]"]
    by (simp add: isPrintify_iff) (simp add: containsMarker_def printifyProduct_def orS_def
        toLowerCase_def lowerChar_def Cons_eq_append_conv)
  have g: "\<not> containsMarker (p_vendor (genericProduct []))"
      "\<not> containsMarker (p_title (genericProduct []))"
    using generic_not_printify [of "[]"] by (simp_all add: isPrintify_iff)
  show ?thesis
    using v g
      routing_by_marker [of "printifyProduct []" "shopConfig ''none''"
        "loadAliExpressCSV feedSKU123" emptyCatalog "''SKU123''"]
      routing_by_marker [of "genericProduct []" "shopConfig ''none''"
        "loadAliExpressCSV feedSKU123" emptyCatalog "''SKU123''"]
    by (simp add: lookupCost_def table_SKU123 truthyN_def)
qed

section \<open>The per-variant step of a pricing pass\<close>

lemma lit_447_ne_448: "lit (447 / 100) \<noteq> lit (448 / 100)"
  by (simp add: fl_eval)

lemma far_from_4_00:
  "jgt (Math_abs (jsub (Fin 4) (lit (447 / 100)))) (lit (9 / 1000))"
  by (simp add: jgt_def jsub_def fl_eval)

text \<open>
  Claim C2, as stated: with rounding mode \<^verbatim>\<open>none\<close>, the feed row \<^verbatim>\<open>SKU123,4.00\<close> and a
  bulk-feed-routed variant with SKU \<^verbatim>\<open>SKU123\<close> and current price \<^verbatim>\<open>4.00\<close>, the target
  price is \<open>4.48\<close> and an update to \<open>4.48\<close> is attempted. It fails:
  \<open>(4.00 + 0.30) / 0.961\<close> is \<open>4.4745...\<close>, which rounds to \<open>4.47\<close>, and the one update
  the pass attempts is to \<open>4.47\<close> (the double nearest to it).
\<close>

theorem scenario_price_is_not_448:
  "computePriceFromCost ''none'' (Num (Fin 4)) \<noteq> lit (448 / 100)
   \<and> map_option attempts
        (runPricingJob (shopConfig ''none'') feedSKU123 emptyCatalog putAlways
          [genericProduct [\<lparr>v_id = 7, v_sku = JStr ''SKU123'', v_price = JStr ''4.00''\<rparr>]])
      = Some [(7, lit (447 / 100))]"
proof -
  have m: "ROUND_MODE (shopConfig ''none'') = ''none''"
    by (simp add: shopConfig_def)
  have c: "supplierCostOf (shopConfig ''none'') (loadAliExpressCSV feedSKU123) emptyCatalog
      (genericProduct vs) ''SKU123'' = Some (Num (Fin 4))" for vs
    by (simp add: supplierCostOf_def lookupCost_def generic_not_printify table_SKU123 truthyN_def)
  have price: "computePriceFromCost ''none'' (Num (Fin 4)) \<noteq> lit (448 / 100)"
    unfolding price_of_4 by (rule lit_447_ne_448)
  have run: "map_option attempts
        (runPricingJob (shopConfig ''none'') feedSKU123 emptyCatalog putAlways
          [genericProduct [\<lparr>v_id = 7, v_sku = JStr ''SKU123'', v_price = JStr ''4.00''\<rparr>]])
      = Some [(7, lit (447 / 100))]"
    using far_from_4_00
    by (simp add: price_of_4 runPricingJob_def variantsOf_def genericProduct_def
        processVariant_def tryVariant_def orElse_def trim_SKU123 parseFloat_4_00 m
        c [unfolded genericProduct_def] truthyN_def updateShopifyVariantPrice_def putAlways_def)
  from price run show ?thesis ..
qed

text \<open>
  Claim C2, amended. In a pricing pass with rounding mode \<^verbatim>\<open>none\<close> where the cost table
  maps \<^verbatim>\<open>SKU123\<close> to \<open>4.00\<close> and a bulk-feed-routed variant has SKU \<^verbatim>\<open>SKU123\<close> and
  current price \<^verbatim>\<open>4.00\<close>, the computed target price is \<open>(4.00 + 0.30) / 0.961\<close> rounded
  to \<open>4.47\<close>, an update to \<open>4.47\<close> is attempted for that variant, and on success the pass
  counts it as updated.
\<close>

theorem scenario_updates_to_447:
  assumes "ROUND_MODE cfg = ''none''" and "tab ''SKU123'' = Some (Fin 4)" and "\<not> isPrintify p"
    and "v_sku v = JStr ''SKU123''" and "v_price v = JStr ''4.00''"
    and "put (v_id v) (lit (447 / 100))"
  shows "computePriceFromCost (ROUND_MODE cfg) (Num (Fin 4)) = lit (447 / 100)
    \<and> processVariant cfg tab remote put p v st =
        Some (st\<lparr>attempts := attempts st @ [(v_id v, lit (447 / 100))],
                 updated := updated st + 1\<rparr>)"
proof -
  have cost: "supplierCostOf cfg tab remote p ''SKU123'' = Some (Num (Fin 4))"
    using assms(2,3) by (simp add: supplierCostOf_table truthyN_def)
  show ?thesis
    using assms(1,4,5,6) cost far_from_4_00
    by (simp add: processVariant_def tryVariant_def orElse_def trim_SKU123 parseFloat_4_00
        price_of_4 truthyN_def updateShopifyVariantPrice_def)
qed

theorem scenario_updates_to_447_witness:
  "runPricingJob (shopConfig ''none'') feedSKU123 emptyCatalog putAlways
     [genericProduct [\<lparr>v_id = 7, v_sku = JStr ''SKU123'', v_price = JStr ''4.00''\<rparr>]]
   = Some \<lparr>updated = 1, skipped = 0, errors = 0, attempts = [(7, lit (447 / 100))]\<rparr>"
  using scenario_updates_to_447 [of "shopConfig ''none''" "loadAliExpressCSV feedSKU123"
      "genericProduct [\<lparr>v_id = 7, v_sku = JStr ''SKU123'', v_price = JStr ''4.00''\<rparr>]"
      "\<lparr>v_id = 7, v_sku = JStr ''SKU123'', v_price = JStr ''4.00''\<rparr>" putAlways
      emptyCatalog newJob]
  by (simp add: runPricingJob_def table_SKU123 generic_not_printify variantsOf_def newJob_def
        putAlways_def)
     (simp add: shopConfig_def genericProduct_def)

text \<open>
  Claim C3. For every variant of a pricing pass whose resolved supplier cost is \<open>0\<close>, or more
  generally falsy (\<open>0\<close> or \<^verbatim>\<open>NaN\<close>) or \<open>\<le> 0\<close>, the variant is counted as skipped and
  nothing else changes: no update is attempted, whatever its current price. An unresolved
  cost is the cost \<open>0\<close> (lemma \<open>supplierCostOf_absent\<close>); the one exception is a SKU
  that names a property of \<^verbatim>\<open>Object.prototype\<close>, whose variant is skipped as well
  (lemma \<open>member_cost_is_skipped\<close>).
\<close>

theorem nonpositive_cost_is_skipped:
  assumes "trimV (orElse (v_sku v) (JStr [])) = Inr s"
    and "supplierCostOf cfg tab remote p s = Some c"
    and "\<not> truthyC c \<or> jle (toNumber c) (Fin 0)"
  shows "processVariant cfg tab remote put p v st = Some (st\<lparr>skipped := skipped st + 1\<rparr>)"
  using assms by (auto simp add: processVariant_def tryVariant_def)

theorem nonpositive_cost_is_skipped_witness:
  "trimV (orElse (JStr ''NOCOST'') (JStr [])) = Inr ''NOCOST''
   \<and> supplierCostOf (shopConfig ''none'') (loadAliExpressCSV feedSKU123) emptyCatalog
        (genericProduct []) ''NOCOST'' = Some (Num (Fin 0))
   \<and> \<not> truthyC (Num (Fin 0))
   \<and> processVariant (shopConfig ''none'') (loadAliExpressCSV feedSKU123) emptyCatalog
        putAlways (genericProduct [])
        \<lparr>v_id = 3, v_sku = JStr ''NOCOST'', v_price = JStr ''19.99''\<rparr> newJob
      = Some \<lparr>updated = 0, skipped = 1, errors = 0, attempts = []\<rparr>"
proof -
  have s: "trimV (orElse (v_sku \<lparr>v_id = 3, v_sku = JStr ''NOCOST'', v_price = JStr ''19.99''\<rparr>)
      (JStr [])) = Inr ''NOCOST''"
    by (simp add: orElse_def trim_def isSpace_def)
  have c: "supplierCostOf (shopConfig ''none'') (loadAliExpressCSV feedSKU123) emptyCatalog
      (genericProduct []) ''NOCOST'' = Some (Num (Fin 0))"
    by (rule supplierCostOf_absent [where tab = "loadAliExpressCSV feedSKU123" and s = "''NOCOST''",
          OF generic_not_printify table_NOCOST])
       (simp add: objectPrototypeKeys_def)
  have z: "\<not> truthyC (Num (Fin 0)) \<or> jle (toNumber (Num (Fin 0))) (Fin 0)"
    by (simp add: truthyN_def)
  show ?thesis
    using s c nonpositive_cost_is_skipped [OF s c z, of putAlways newJob]
    by (simp add: truthyN_def newJob_def)
qed

lemma parseFloat_4_461: "parseFloat ''4.461'' = lit (4461 / 1000)"
  by (simp add: parse_simps fl_eval)

lemma parseFloat_4_479: "parseFloat ''4.479'' = lit (4479 / 1000)"
  by (simp add: parse_simps fl_eval)

lemma parseFloat_4_4791: "parseFloat ''4.4791'' = lit (44791 / 10000)"
  by (simp add: parse_simps fl_eval)

lemma cost_SKU123:
  "supplierCostOf (shopConfig mode) (loadAliExpressCSV feedSKU123) emptyCatalog
     (genericProduct vs) ''SKU123'' = Some (Num (Fin 4))"
  by (simp add: supplierCostOf_def lookupCost_def generic_not_printify table_SKU123 truthyN_def)

text \<open>
  The computed differences of three current prices to the target \<open>4.47\<close>: for the
  decimals \<open>4.461\<close> and \<open>4.479\<close>, both \<open>0.009\<close> away from \<open>4.47\<close> as decimals, the
  doubles differ by a little less than the double \<open>0.009\<close> in the first case and by a
  little more in the second.
\<close>

lemma diff_4_461: "\<not> jgt (Math_abs (jsub (lit (4461 / 1000)) (lit (447 / 100)))) (lit (9 / 1000))"
  by (simp add: jgt_def jsub_def fl_eval)

lemma diff_4_479: "jgt (Math_abs (jsub (lit (4479 / 1000)) (lit (447 / 100)))) (lit (9 / 1000))"
  by (simp add: jgt_def jsub_def fl_eval)

lemma diff_4_4791: "jgt (Math_abs (jsub (lit (44791 / 10000)) (lit (447 / 100)))) (lit (9 / 1000))"
  by (simp add: jgt_def jsub_def fl_eval)

text \<open>
  Claim C4, as stated: for a variant with a positive cost, a current price that differs
  from the computed target price by exactly \<open>0.009\<close> is skipped. It fails for the current
  price \<^verbatim>\<open>4.479\<close> against the target \<open>4.47\<close> (cost \<open>4.00\<close>, mode \<^verbatim>\<open>none\<close>): the
  difference of the two doubles is \<open>0.009000000000000341\<close>, which is greater than the
  double \<open>0.009\<close>, and an update to \<open>4.47\<close> is attempted.
\<close>

theorem boundary_4_479_is_updated:
  "(4479 / 1000 - 447 / 100 :: rat) = 9 / 1000
   \<and> parseFloatV (JStr ''4.479'') = lit (4479 / 1000)
   \<and> computePriceFromCost ''none'' (Num (Fin 4)) = lit (447 / 100)
   \<and> processVariant (shopConfig ''none'') (loadAliExpressCSV feedSKU123) emptyCatalog
        putAlways (genericProduct [])
        \<lparr>v_id = 7, v_sku = JStr ''SKU123'', v_price = JStr ''4.479''\<rparr> newJob
      = Some \<lparr>updated = 1, skipped = 0, errors = 0, attempts = [(7, lit (447 / 100))]\<rparr>"
proof -
  have m: "ROUND_MODE (shopConfig ''none'') = ''none''"
    by (simp add: shopConfig_def)
  have "processVariant (shopConfig ''none'') (loadAliExpressCSV feedSKU123) emptyCatalog
        putAlways (genericProduct [])
        \<lparr>v_id = 7, v_sku = JStr ''SKU123'', v_price = JStr ''4.479''\<rparr> newJob
      = Some \<lparr>updated = 1, skipped = 0, errors = 0, attempts = [(7, lit (447 / 100))]\<rparr>"
    using diff_4_479
    by (simp add: processVariant_def tryVariant_def orElse_def trim_SKU123 cost_SKU123 m
        price_of_4 parseFloat_4_479 truthyN_def updateShopifyVariantPrice_def
        putAlways_def newJob_def)
  then show ?thesis
    by (simp add: parseFloat_4_479 price_of_4)
qed

text \<open>
  A cost of ten cents in mode \<^verbatim>\<open>whole\<close> has the target price \<open>0\<close>, so that the computed
  difference is the current price itself: the double \<open>0.009\<close> for the current price
  \<^verbatim>\<open>0.009\<close>, the double \<open>0.0091\<close> for \<^verbatim>\<open>0.0091\<close>.
\<close>

lemma parseFloat_0_10: "parseFloat ''0.10'' = lit (1 / 10)"
  by (simp add: parse_simps fl_eval)

lemma parseFloat_0_009: "parseFloat ''0.009'' = lit (9 / 1000)"
  by (simp add: parse_simps fl_eval)

lemma parseFloat_0_0091: "parseFloat ''0.0091'' = lit (91 / 10000)"
  by (simp add: parse_simps fl_eval)

lemma trim_PIN: "trim ''PIN'' = ''PIN''"
  by (simp add: trim_def isSpace_def)

lemma table_PIN: "loadAliExpressCSV feedPIN ''PIN'' = Some (lit (1 / 10))"
proof -
  have "\<not> isNaN (lit (1 / 10))"
    by (simp add: isNaN_def fl_eval)
  then show ?thesis
    by (simp add: loadAliExpressCSV_def feedPIN_def loadRow_def assign_def rowSku_def
      rowCost_def orS_def trim_PIN parseFloat_0_10 Let_def)
qed

lemma price_of_dime: "computePriceFromCost ''whole'' (Num (lit (1 / 10))) = Fin 0"
  by (simp add: computePriceFromCost_def round_eval)

lemma dime_positive: "jgt (toNumber (Num (lit (1 / 10)))) (Fin 0)" "truthyN (lit (1 / 10))"
  by (simp_all add: jgt_def truthyN_def fl_eval)

lemma not_above_tolerance: "\<not> jgt (lit (9 / 1000)) (lit (9 / 1000))"
  by (simp add: jgt_def fl_eval)

lemma above_tolerance: "jgt (lit (91 / 10000)) (lit (9 / 1000))"
  by (simp add: jgt_def fl_eval)

lemma minus_zero: "Math_abs (jsub (lit (9 / 1000)) (Fin 0)) = lit (9 / 1000)"
  "Math_abs (jsub (lit (91 / 10000)) (Fin 0)) = lit (91 / 10000)"
  by (simp_all add: jsub_def fl_eval)

text \<open>
  Claim C4, amended. For every variant whose resolved cost is positive: if the absolute
  difference between the current price and the computed target price, as
  \<^verbatim>\<open>Math.abs(currentPrice - newPrice)\<close> computes it on doubles, is not greater than the
  double \<open>0.009\<close>, in particular if it is that double, the variant is counted as skipped
  and no update is attempted; if it is greater, in particular if it is the double
  \<open>0.0091\<close>, an update to the target price is attempted (and counted as updated or as an
  error, according to its outcome). In the witness, against the target \<open>4.47\<close> the current
  price \<^verbatim>\<open>4.461\<close> is skipped and an update of the current price \<^verbatim>\<open>4.4791\<close> is
  attempted; against the target \<open>0\<close> the current price \<^verbatim>\<open>0.009\<close>, at a computed distance
  of exactly \<open>0.009\<close>, is skipped, and an update of the current price \<^verbatim>\<open>0.0091\<close> is
  attempted.
\<close>

theorem tolerance_boundary:
  assumes "trimV (orElse (v_sku v) (JStr [])) = Inr s"
    and "supplierCostOf cfg tab remote p s = Some c"
    and "jgt (toNumber c) (Fin 0)"
    and "newPrice = computePriceFromCost (ROUND_MODE cfg) c"
    and "currentPrice = parseFloatV (orElse (v_price v) (JStr ''0''))"
  shows "(\<not> jgt (Math_abs (jsub currentPrice newPrice)) (lit (9 / 1000)) \<longrightarrow>
           processVariant cfg tab remote put p v st = Some (st\<lparr>skipped := skipped st + 1\<rparr>))
       \<and> (jgt (Math_abs (jsub currentPrice newPrice)) (lit (9 / 1000)) \<longrightarrow>
           processVariant cfg tab remote put p v st =
             Some (if put (v_id v) newPrice
                   then st\<lparr>attempts := attempts st @ [(v_id v, newPrice)],
                           updated := updated st + 1\<rparr>
                   else st\<lparr>attempts := attempts st @ [(v_id v, newPrice)],
                           errors := errors st + 1\<rparr>))
       \<and> (Math_abs (jsub currentPrice newPrice) = lit (9 / 1000) \<longrightarrow>
           processVariant cfg tab remote put p v st = Some (st\<lparr>skipped := skipped st + 1\<rparr>))
       \<and> (Math_abs (jsub currentPrice newPrice) = lit (91 / 10000) \<longrightarrow>
           processVariant cfg tab remote put p v st =
             Some (if put (v_id v) newPrice
                   then st\<lparr>attempts := attempts st @ [(v_id v, newPrice)],
                           updated := updated st + 1\<rparr>
                   else st\<lparr>attempts := attempts st @ [(v_id v, newPrice)],
                           errors := errors st + 1\<rparr>))"
proof -
  from assms(3) have pos: "truthyC c" "\<not> jle (toNumber c) (Fin 0)"
    by (cases c; cases "toNumber c"; simp add: jgt_def truthyN_def)+
  have step: "processVariant cfg tab remote put p v st =
      (if jgt (Math_abs (jsub currentPrice newPrice)) (lit (9 / 1000))
       then Some (if put (v_id v) newPrice
                   then st\<lparr>attempts := attempts st @ [(v_id v, newPrice)],
                           updated := updated st + 1\<rparr>
                   else st\<lparr>attempts := attempts st @ [(v_id v, newPrice)],
                           errors := errors st + 1\<rparr>)
       else Some (st\<lparr>skipped := skipped st + 1\<rparr>))"
    using assms(1,2) pos unfolding assms(4,5)
    by (simp add: processVariant_def tryVariant_def Let_def updateShopifyVariantPrice_def)
  show ?thesis
  proof (intro conjI impI)
    assume "\<not> jgt (Math_abs (jsub currentPrice newPrice)) (lit (9 / 1000))"
    then show "processVariant cfg tab remote put p v st = Some (st\<lparr>skipped := skipped st + 1\<rparr>)"
      unfolding step by (simp only: if_False)
  next
    assume "jgt (Math_abs (jsub currentPrice newPrice)) (lit (9 / 1000))"
    then show "processVariant cfg tab remote put p v st =
             Some (if put (v_id v) newPrice
                   then st\<lparr>attempts := attempts st @ [(v_id v, newPrice)],
                           updated := updated st + 1\<rparr>
                   else st\<lparr>attempts := attempts st @ [(v_id v, newPrice)],
                           errors := errors st + 1\<rparr>)"
      unfolding step by (simp only: if_True)
  next
    assume "Math_abs (jsub currentPrice newPrice) = lit (9 / 1000)"
    then show "processVariant cfg tab remote put p v st = Some (st\<lparr>skipped := skipped st + 1\<rparr>)"
      unfolding step using not_above_tolerance by (simp only: if_False)
  next
    assume "Math_abs (jsub currentPrice newPrice) = lit (91 / 10000)"
    then show "processVariant cfg tab remote put p v st =
             Some (if put (v_id v) newPrice
                   then st\<lparr>attempts := attempts st @ [(v_id v, newPrice)],
                           updated := updated st + 1\<rparr>
                   else st\<lparr>attempts := attempts st @ [(v_id v, newPrice)],
                           errors := errors st + 1\<rparr>)"
      unfolding step using above_tolerance by (simp only: if_True)
  qed
qed

theorem tolerance_boundary_witness:
  "jgt (toNumber (Num (Fin 4))) (Fin 0)
   \<and> \<not> jgt (Math_abs (jsub (parseFloatV (JStr ''4.461'')) (computePriceFromCost ''none'' (Num (Fin 4)))))
        (lit (9 / 1000))
   \<and> processVariant (shopConfig ''none'') (loadAliExpressCSV feedSKU123) emptyCatalog
        putAlways (genericProduct [])
        \<lparr>v_id = 7, v_sku = JStr ''SKU123'', v_price = JStr ''4.461''\<rparr> newJob
      = Some \<lparr>updated = 0, skipped = 1, errors = 0, attempts = []\<rparr>
   \<and> jgt (Math_abs (jsub (parseFloatV (JStr ''4.4791'')) (computePriceFromCost ''none'' (Num (Fin 4)))))
        (lit (9 / 1000))
   \<and> processVariant (shopConfig ''none'') (loadAliExpressCSV feedSKU123) emptyCatalog
        putAlways (genericProduct [])
        \<lparr>v_id = 7, v_sku = JStr ''SKU123'', v_price = JStr ''4.4791''\<rparr> newJob
      = Some \<lparr>updated = 1, skipped = 0, errors = 0, attempts = [(7, lit (447 / 100))]\<rparr>
   \<and> jgt (toNumber (Num (lit (1 / 10)))) (Fin 0)
   \<and> Math_abs (jsub (parseFloatV (JStr ''0.009''))
        (computePriceFromCost ''whole'' (Num (lit (1 / 10))))) = lit (9 / 1000)
   \<and> processVariant (shopConfig ''whole'') (loadAliExpressCSV feedPIN) emptyCatalog
        putAlways (genericProduct [])
        \<lparr>v_id = 8, v_sku = JStr ''PIN'', v_price = JStr ''0.009''\<rparr> newJob
      = Some \<lparr>updated = 0, skipped = 1, errors = 0, attempts = []\<rparr>
   \<and> Math_abs (jsub (parseFloatV (JStr ''0.0091''))
        (computePriceFromCost ''whole'' (Num (lit (1 / 10))))) = lit (91 / 10000)
   \<and> processVariant (shopConfig ''whole'') (loadAliExpressCSV feedPIN) emptyCatalog
        putAlways (genericProduct [])
        \<lparr>v_id = 8, v_sku = JStr ''PIN'', v_price = JStr ''0.0091''\<rparr> newJob
      = Some \<lparr>updated = 1, skipped = 0, errors = 0, attempts = [(8, Fin 0)]\<rparr>"
proof -
  let ?cfg = "shopConfig ''none''" and ?tab = "loadAliExpressCSV feedSKU123"
  let ?lo = "\<lparr>v_id = 7, v_sku = JStr ''SKU123'', v_price = JStr ''4.461''\<rparr>"
  let ?hi = "\<lparr>v_id = 7, v_sku = JStr ''SKU123'', v_price = JStr ''4.4791''\<rparr>"
  have pos: "jgt (toNumber (Num (Fin 4))) (Fin 0)"
    by (simp add: jgt_def)
  note c = cost_SKU123 [of "''none''" "[]"]
  have slo: "trimV (orElse (v_sku ?lo) (JStr [])) = Inr ''SKU123''"
    and shi: "trimV (orElse (v_sku ?hi) (JStr [])) = Inr ''SKU123''"
    by (simp_all add: orElse_def trim_SKU123)
  have m: "ROUND_MODE ?cfg = ''none''"
    by (simp add: shopConfig_def)
  have dlo: "\<not> jgt (Math_abs (jsub (parseFloatV (orElse (v_price ?lo) (JStr ''0'')))
      (computePriceFromCost (ROUND_MODE ?cfg) (Num (Fin 4))))) (lit (9 / 1000))"
    using diff_4_461 by (simp add: m orElse_def parseFloat_4_461 price_of_4)
  have dhi: "jgt (Math_abs (jsub (parseFloatV (orElse (v_price ?hi) (JStr ''0'')))
      (computePriceFromCost (ROUND_MODE ?cfg) (Num (Fin 4))))) (lit (9 / 1000))"
    using diff_4_4791 by (simp add: m orElse_def parseFloat_4_4791 price_of_4)
  have lo: "processVariant ?cfg ?tab emptyCatalog putAlways (genericProduct []) ?lo newJob
      = Some (newJob\<lparr>skipped := skipped newJob + 1\<rparr>)"
    using tolerance_boundary [OF slo c pos refl refl, of putAlways newJob] dlo by blast
  have hi: "processVariant ?cfg ?tab emptyCatalog putAlways (genericProduct []) ?hi newJob
      = Some (newJob\<lparr>attempts := attempts newJob @ [(7, lit (447 / 100))],
                     updated := updated newJob + 1\<rparr>)"
    using tolerance_boundary [OF shi c pos refl refl, of putAlways newJob] dhi
    by (simp add: m price_of_4 putAlways_def)
  let ?cfgw = "shopConfig ''whole''" and ?tabw = "loadAliExpressCSV feedPIN"
  let ?eq = "\<lparr>v_id = 8, v_sku = JStr ''PIN'', v_price = JStr ''0.009''\<rparr>"
  let ?up = "\<lparr>v_id = 8, v_sku = JStr ''PIN'', v_price = JStr ''0.0091''\<rparr>"
  note posw = dime_positive(1)
  have cw: "supplierCostOf ?cfgw ?tabw emptyCatalog (genericProduct []) ''PIN''
      = Some (Num (lit (1 / 10)))"
    by (rule supplierCostOf_table [where tab = "loadAliExpressCSV feedPIN" and s = "''PIN''",
          OF generic_not_printify table_PIN dime_positive(2)])
  have seq: "trimV (orElse (v_sku ?eq) (JStr [])) = Inr ''PIN''"
    and sup: "trimV (orElse (v_sku ?up) (JStr [])) = Inr ''PIN''"
    by (simp_all add: orElse_def trim_PIN)
  have mw: "ROUND_MODE ?cfgw = ''whole''"
    by (simp add: shopConfig_def)
  have deq: "Math_abs (jsub (parseFloatV (orElse (v_price ?eq) (JStr ''0'')))
      (computePriceFromCost (ROUND_MODE ?cfgw) (Num (lit (1 / 10))))) = lit (9 / 1000)"
    by (simp add: mw orElse_def parseFloat_0_009 price_of_dime minus_zero)
  have dup: "Math_abs (jsub (parseFloatV (orElse (v_price ?up) (JStr ''0'')))
      (computePriceFromCost (ROUND_MODE ?cfgw) (Num (lit (1 / 10))))) = lit (91 / 10000)"
    by (simp add: mw orElse_def parseFloat_0_0091 price_of_dime minus_zero)
  have eq: "processVariant ?cfgw ?tabw emptyCatalog putAlways (genericProduct []) ?eq newJob
      = Some (newJob\<lparr>skipped := skipped newJob + 1\<rparr>)"
    using tolerance_boundary [OF seq cw posw refl refl, of putAlways newJob] deq by blast
  have up: "processVariant ?cfgw ?tabw emptyCatalog putAlways (genericProduct []) ?up newJob
      = Some (newJob\<lparr>attempts := attempts newJob @ [(8, Fin 0)],
                     updated := updated newJob + 1\<rparr>)"
    using tolerance_boundary [OF sup cw posw refl refl, of putAlways newJob] dup
    by (simp add: mw price_of_dime putAlways_def)
  have first: "jgt (toNumber (Num (Fin 4))) (Fin 0)
   \<and> \<not> jgt (Math_abs (jsub (parseFloatV (JStr ''4.461'')) (computePriceFromCost ''none'' (Num (Fin 4)))))
        (lit (9 / 1000))
   \<and> processVariant ?cfg ?tab emptyCatalog putAlways (genericProduct []) ?lo newJob
      = Some \<lparr>updated = 0, skipped = 1, errors = 0, attempts = []\<rparr>
   \<and> jgt (Math_abs (jsub (parseFloatV (JStr ''4.4791'')) (computePriceFromCost ''none'' (Num (Fin 4)))))
        (lit (9 / 1000))
   \<and> processVariant ?cfg ?tab emptyCatalog putAlways (genericProduct []) ?hi newJob
      = Some \<lparr>updated = 1, skipped = 0, errors = 0, attempts = [(7, lit (447 / 100))]\<rparr>"
    using pos dlo dhi lo hi by (simp add: m orElse_def newJob_def)
  have second: "jgt (toNumber (Num (lit (1 / 10)))) (Fin 0)
   \<and> Math_abs (jsub (parseFloatV (JStr ''0.009''))
        (computePriceFromCost ''whole'' (Num (lit (1 / 10))))) = lit (9 / 1000)
   \<and> processVariant ?cfgw ?tabw emptyCatalog putAlways (genericProduct []) ?eq newJob
      = Some \<lparr>updated = 0, skipped = 1, errors = 0, attempts = []\<rparr>
   \<and> Math_abs (jsub (parseFloatV (JStr ''0.0091''))
        (computePriceFromCost ''whole'' (Num (lit (1 / 10))))) = lit (91 / 10000)
   \<and> processVariant ?cfgw ?tabw emptyCatalog putAlways (genericProduct []) ?up newJob
      = Some \<lparr>updated = 1, skipped = 0, errors = 0, attempts = [(8, Fin 0)]\<rparr>"
    using posw deq dup eq up by (simp add: mw orElse_def newJob_def)
  from first second show ?thesis
    by (simp only: simp_thms)
qed

text \<open>
  The test compares the computed difference with the double \<open>0.009\<close>; both carry a
  rounding error, far below \<open>10\<^sup>-\<^sup>1\<^sup>5\<close>. So two prices whose values are at most
  \<open>0.009 - 10\<^sup>-\<^sup>1\<^sup>5\<close> apart are within the tolerance, and two prices whose values are
  at least \<open>0.009 + 10\<^sup>-\<^sup>1\<^sup>5\<close> apart are not.
\<close>

lemma tolerance_up_to_rounding:
  assumes "\<bar>a - n\<bar> \<le> 10 ^ 9"
  shows "\<bar>a - n\<bar> \<le> 9 / 1000 - 1 / 10 ^ 15 \<Longrightarrow>
      \<not> jgt (Math_abs (jsub (Fin a) (Fin n))) (lit (9 / 1000))"
    and "9 / 1000 + 1 / 10 ^ 15 \<le> \<bar>a - n\<bar> \<Longrightarrow>
      jgt (Math_abs (jsub (Fin a) (Fin n))) (lit (9 / 1000))"
proof -
  have "\<bar>9 / 1000 :: rat\<bar> \<le> 10 ^ 15" by simp
  then have L: "lit (9 / 1000) = Fin (fl (9 / 1000))"
    unfolding lit_def by (rule d64_Fin)
  have "\<bar>a - n\<bar> \<le> 10 ^ 15"
    using assms by simp
  then have "d64 (a - n) = Fin (fl (a - n))"
    by (rule d64_Fin)
  then have D: "Math_abs (jsub (Fin a) (Fin n)) = Fin \<bar>fl (a - n)\<bar>"
    by (simp add: jsub_def)
  define x where "x = fl (a - n)"
  define d where "d = \<bar>a - n\<bar>"
  define l where "l = fl (9 / 1000)"
  have "\<bar>x - (a - n)\<bar> \<le> d / 9007199254740992 + 1 / 1267650600228229401496703205376"
    using fl_error [of "a - n"] by (simp add: x_def d_def)
  moreover have "\<bar>\<bar>x\<bar> - d\<bar> \<le> \<bar>x - (a - n)\<bar>"
    unfolding d_def by linarith
  ultimately have e1: "\<bar>\<bar>x\<bar> - d\<bar>
      \<le> d / 9007199254740992 + 1 / 1267650600228229401496703205376"
    by linarith
  have e2: "\<bar>l - 9 / 1000\<bar>
      \<le> (9 / 1000) / 9007199254740992 + 1 / 1267650600228229401496703205376"
    using fl_error [of "9 / 1000"] by (simp add: l_def)
  have near: "l \<le> 9 / 1000 + 1 / 100000000000000000"
    "9 / 1000 - 1 / 100000000000000000 \<le> l"
    using e2 by linarith+
  {
    assume "\<bar>a - n\<bar> \<le> 9 / 1000 - 1 / 10 ^ 15"
    then have "d \<le> 9 / 1000 - 1 / 1000000000000000" by (simp add: d_def)
    then have "\<bar>x\<bar> \<le> l"
      using e1 near by linarith
    then show "\<not> jgt (Math_abs (jsub (Fin a) (Fin n))) (lit (9 / 1000))"
      unfolding D L by (simp add: jgt_def x_def l_def)
  next
    assume "9 / 1000 + 1 / 10 ^ 15 \<le> \<bar>a - n\<bar>"
    then have "9 / 1000 + 1 / 1000000000000000 \<le> d" by (simp add: d_def)
    then have "l < \<bar>x\<bar>"
      using e1 near by linarith
    then show "jgt (Math_abs (jsub (Fin a) (Fin n))) (lit (9 / 1000))"
      unfolding D L by (simp add: jgt_def x_def l_def)
  }
qed

text \<open>
  A SKU that names a property of \<^verbatim>\<open>Object.prototype\<close> and has no row in the feed
  resolves to that member. It passes the cost check, the price computed from it is
  \<^verbatim>\<open>NaN\<close>, and the tolerance test fails on \<^verbatim>\<open>NaN\<close>: the variant is skipped as well,
  with no update.
\<close>

lemma member_price: "computePriceFromCost mode Member = NaN"
  by (simp add: computePriceFromCost_def applyRounding_def roundToTwo_def jsub_def Let_def)

lemma member_cost_is_skipped:
  assumes "trimV (orElse (v_sku v) (JStr [])) = Inr s"
    and "supplierCostOf cfg tab remote p s = Some Member"
  shows "processVariant cfg tab remote put p v st = Some (st\<lparr>skipped := skipped st + 1\<rparr>)"
proof -
  have "\<not> jgt (Math_abs (jsub x NaN)) y" for x y
    by (cases x; cases y; simp add: jsub_def jgt_def)
  with assms show ?thesis
    by (simp add: processVariant_def tryVariant_def member_price)
qed

section \<open>The cost table built from the feed\<close>

lemma loadRow_blank: "rowSku r = [] \<Longrightarrow> loadRow r m = m"
  by (simp add: loadRow_def)

lemma loadRow_proto: "rowSku r = ''__proto__'' \<Longrightarrow> loadRow r m = m"
  by (simp add: loadRow_def assign_def)

lemma loadRow_sku:
  "rowSku r \<noteq> [] \<Longrightarrow> rowSku r \<noteq> ''__proto__'' \<Longrightarrow>
   loadRow r m (rowSku r) = Some (if isNaN (rowCost r) then Fin 0 else rowCost r)"
  by (simp add: loadRow_def assign_def)

lemma loadRow_other: "rowSku r \<noteq> k \<Longrightarrow> loadRow r m k = m k"
  by (simp add: loadRow_def assign_def Let_def)

lemma fold_loadRow_other:
  "\<forall>r \<in> set rs. rowSku r \<noteq> k \<Longrightarrow> fold loadRow rs m k = m k"
  by (induction rs arbitrary: m) (simp_all add: loadRow_other)

text \<open>No row stores anything under the key \<^verbatim>\<open>__proto__\<close>.\<close>

lemma fold_loadRow_proto: "fold loadRow rs m ''__proto__'' = m ''__proto__''"
proof (induction rs arbitrary: m)
  case Nil
  then show ?case by simp
next
  case (Cons r rs)
  have "loadRow r m ''__proto__'' = m ''__proto__''"
    by (cases "rowSku r = ''__proto__''") (simp_all add: loadRow_proto loadRow_other)
  with Cons show ?case by simp
qed

text \<open>\<^verbatim>\<open>trim\<close> removes a no-break space like any other white space.\<close>

lemma trim_no_break_space: "trim (CHR 0xA0 # ''A1'' @ [CHR 0xA0, CHR '' '']) = ''A1''"
  by (simp add: trim_def isSpace_def)

lemma rowSku_A: "rowSku rowA = ''A1''"
  by (simp add: rowSku_def rowA_def orS_def trim_def isSpace_def)

lemma rowSku_A': "rowSku rowA' = ''A1''"
  by (simp add: rowSku_def rowA'_def orS_def trim_def isSpace_def)

lemma rowSku_blank: "rowSku rowBlank = []"
  by (simp add: rowSku_def rowBlank_def orS_def trim_def isSpace_def)

lemma rowSku_bad: "rowSku rowBad = ''B2''"
  by (simp add: rowSku_def rowBad_def orS_def trim_def isSpace_def)

lemma rowCost_bad: "rowCost rowBad = NaN"
  by (simp add: rowCost_def rowBad_def orS_def parse_simps)

lemma rowCost_A': "rowCost rowA' = Fin (9 / 4)"
  by (simp add: rowCost_def rowA'_def orS_def parse_simps fl_eval)

lemma rowSku_proto: "rowSku rowProto = ''__proto__''"
  by (simp add: rowSku_def rowProto_def orS_def trim_def isSpace_def)

lemma rowCost_proto: "rowCost rowProto = Fin 4"
  by (simp add: rowCost_def rowProto_def orS_def parseFloat_4_00)

text \<open>
  The table built from the feed, for every SKU but \<^verbatim>\<open>__proto__\<close>: a row whose trimmed
  SKU is empty is ignored (the table is the one built without it), a row whose cost value
  is unparsable (\<^verbatim>\<open>parseFloat\<close> gives \<^verbatim>\<open>NaN\<close>) stores the cost \<open>0\<close> for its SKU, and
  when several rows share a SKU the last row's cost wins: the table maps a SKU to the cost
  of the last row that has it, and the lookup of the SKU gives that cost.
\<close>

lemma feed_table_except_proto:
  "(rowSku r = [] \<longrightarrow>
      loadAliExpressCSV (Records (rs @ r # rs')) = loadAliExpressCSV (Records (rs @ rs')))
   \<and> (rowSku r \<noteq> [] \<and> rowSku r \<noteq> ''__proto__'' \<and> isNaN (rowCost r) \<longrightarrow>
        loadRow r m (rowSku r) = Some (Fin 0))
   \<and> (rowSku r \<noteq> [] \<and> rowSku r \<noteq> ''__proto__'' \<and> (\<forall>r' \<in> set rs'. rowSku r' \<noteq> rowSku r) \<longrightarrow>
        loadAliExpressCSV (Records (rs @ r # rs')) (rowSku r)
          = Some (if isNaN (rowCost r) then Fin 0 else rowCost r)
        \<and> lookupCost (loadAliExpressCSV (Records (rs @ r # rs'))) (rowSku r)
          = Some (Num (if isNaN (rowCost r) then Fin 0 else rowCost r)))"
  by (simp add: loadAliExpressCSV_def lookupCost_def loadRow_blank loadRow_sku fold_loadRow_other)

lemma feed_table_example:
  "loadAliExpressCSV (Records [rowA, rowBlank, rowBad, rowA'])
      = loadAliExpressCSV (Records [rowA, rowBad, rowA'])
   \<and> loadAliExpressCSV (Records [rowA, rowBlank, rowBad, rowA']) ''B2'' = Some (Fin 0)
   \<and> loadAliExpressCSV (Records [rowA, rowBlank, rowBad, rowA']) ''A1'' = Some (Fin (9 / 4))"
  using feed_table_except_proto [of rowBlank "[rowA]" "[rowBad, rowA']"]
    feed_table_except_proto [of rowBad "[rowA, rowBlank]" "[rowA']"]
    feed_table_except_proto [of rowA' "[rowA, rowBlank, rowBad]" "[]"]
  by (simp add: rowSku_A rowSku_A' rowSku_blank rowSku_bad rowCost_bad rowCost_A' isNaN_def)

text \<open>
  Claim C8: loading the feed builds a table where a row with an unparsable cost yields the
  cost \<open>0\<close> for its SKU and the last row of a SKU wins. The claim holds for every SKU
  but one (lemma \<open>feed_table_except_proto\<close>); the code breaks it for the SKU
  \<^verbatim>\<open>__proto__\<close>. The table is a plain object, and \<^verbatim>\<open>map['__proto__'] = cost\<close> stores
  nothing: after loading the feed whose one row is \<^verbatim>\<open>__proto__,4.00\<close> the table has no
  entry for that SKU, the lookup \<^verbatim>\<open>aliexpressCostBySku['__proto__']\<close> gives
  \<^verbatim>\<open>Object.prototype\<close> and not the cost \<open>4\<close>, and a variant with that SKU is skipped
  with no price update, whereas the same row under the SKU \<^verbatim>\<open>SKU123\<close> leads to an update
  to \<open>4.47\<close>.
\<close>

theorem proto_row_is_not_stored:
  "rowSku rowProto = ''__proto__'' \<and> rowCost rowProto = Fin 4
   \<and> loadAliExpressCSV (Records [rowProto]) ''__proto__'' = None
   \<and> lookupCost (loadAliExpressCSV (Records [rowProto])) ''__proto__'' = Some Member
   \<and> runPricingJob (shopConfig ''none'') (Records [rowProto]) emptyCatalog putAlways
        [genericProduct [\<lparr>v_id = 7, v_sku = JStr ''__proto__'', v_price = JStr ''4.00''\<rparr>]]
      = Some \<lparr>updated = 0, skipped = 1, errors = 0, attempts = []\<rparr>"
proof -
  have t: "loadAliExpressCSV (Records [rowProto]) ''__proto__'' = None"
    by (simp add: loadAliExpressCSV_def loadRow_proto rowSku_proto)
  then have l: "lookupCost (loadAliExpressCSV (Records [rowProto])) ''__proto__'' = Some Member"
    by (simp add: lookupCost_def objectPrototypeKeys_def)
  have tr: "trim ''__proto__'' = ''__proto__''"
    by (simp add: trim_def isSpace_def)
  have c: "supplierCostOf (shopConfig ''none'') (loadAliExpressCSV (Records [rowProto]))
      emptyCatalog (genericProduct vs) ''__proto__'' = Some Member" for vs
    by (simp add: supplierCostOf_def generic_not_printify l)
  have s: "trimV (orElse (v_sku \<lparr>v_id = 7, v_sku = JStr ''__proto__'', v_price = JStr ''4.00''\<rparr>)
      (JStr [])) = Inr ''__proto__''"
    by (simp add: orElse_def tr)
  note step = member_cost_is_skipped
      [OF s c [of "[\<lparr>v_id = 7, v_sku = JStr ''__proto__'', v_price = JStr ''4.00''\<rparr>]"],
        where put = putAlways and st = newJob]
  have "runPricingJob (shopConfig ''none'') (Records [rowProto]) emptyCatalog putAlways
        [genericProduct [\<lparr>v_id = 7, v_sku = JStr ''__proto__'', v_price = JStr ''4.00''\<rparr>]]
      = Some \<lparr>updated = 0, skipped = 1, errors = 0, attempts = []\<rparr>"
    by (simp add: runPricingJob_def variantsOf_def genericProduct_def
        step [unfolded genericProduct_def newJob_def])
  with t l show ?thesis
    by (simp add: rowSku_proto rowCost_proto)
qed

section \<open>Pagination of the Printify lookup\<close>

lemma scanPages_stops:
  "pageStops sku (remote page) \<Longrightarrow>
   scanPages remote sku page fetched = Some (pageResult sku (remote page), fetched @ [page])"
  by (subst scanPages.simps)
     (auto simp add: pageStops_def pageResult_def split: response.splits sum.splits option.splits)

lemma scanPages_continues:
  "\<not> pageStops sku (remote page) \<Longrightarrow>
   scanPages remote sku page fetched = scanPages remote sku (page + 1) (fetched @ [page])"
  by (subst scanPages.simps)
     (auto simp add: pageStops_def split: response.splits sum.splits option.splits)

text \<open>
  If the page \<open>n\<close> steps ahead is the first that ends the lookup, the loop requests the
  pages up to it, that page last, and returns its result.
\<close>

lemma scanPages_first_stop:
  assumes "pageStops sku (remote (page + n))"
    and "\<forall>k<n. \<not> pageStops sku (remote (page + k))"
  shows "scanPages remote sku page fetched =
    Some (pageResult sku (remote (page + n)), fetched @ [page..<Suc (page + n)])"
  using assms
proof (induction n arbitrary: page fetched)
  case 0
  then show ?case by (simp add: scanPages_stops)
next
  case (Suc n)
  from Suc.prems(2) have here: "\<not> pageStops sku (remote page)"
    by (metis add.right_neutral zero_less_Suc)
  have later: "\<forall>k<n. \<not> pageStops sku (remote (page + 1 + k))"
  proof (intro allI impI)
    fix k assume "k < n"
    then have "Suc k < Suc n" by simp
    with Suc.prems(2) have "\<not> pageStops sku (remote (page + Suc k))" by blast
    then show "\<not> pageStops sku (remote (page + 1 + k))" by simp
  qed
  have stop: "pageStops sku (remote (page + 1 + n))"
    using Suc.prems(1) by simp
  have "scanPages remote sku page fetched = scanPages remote sku (page + 1) (fetched @ [page])"
    using here by (rule scanPages_continues)
  also have "\<dots> = Some (pageResult sku (remote (page + 1 + n)),
      (fetched @ [page]) @ [page + 1..<Suc (page + 1 + n)])"
    using stop later by (rule Suc.IH)
  also have "(fetched @ [page]) @ [page + 1..<Suc (page + 1 + n)]
      = fetched @ [page..<Suc (page + Suc n)]"
    by (simp add: upt_conv_Cons)
  finally show ?case by simp
qed

text \<open>
  Conversely, a lookup that returns has met a page that ends it: against a catalog that
  serves full pages without a match for ever, the loop does not return.
\<close>

lemma scanPages_Some_stops:
  assumes "scanPages remote sku page fetched = Some y"
  shows "\<exists>k\<ge>page. pageStops sku (remote k)"
  using assms
proof (induction rule: scanPages.raw_induct[rotated 1, consumes 1])
  case (1 scanPages' remote sku page fetched y)
  show ?case
  proof (cases "pageStops sku (remote page)")
    case True
    then show ?thesis by blast
  next
    case False
    with 1(2) have "scanPages' remote sku (page + 1) (fetched @ [page]) = Some y"
      by (auto simp add: pageStops_def split: response.splits sum.splits option.splits if_splits)
    then have "\<exists>k\<ge>page + 1. pageStops sku (remote k)" by (rule 1(1))
    then show ?thesis by (metis add_leD1)
  qed
qed

lemma scanPages_runs_forever:
  "\<forall>k\<ge>page. \<not> pageStops sku (remote k) \<Longrightarrow> scanPages remote sku page fetched = None"
  using scanPages_Some_stops [of remote sku page fetched] by (cases "scanPages remote sku page fetched") auto

lemma scanProducts_append:
  "scanProducts sku xs = Inr None \<Longrightarrow> scanProducts sku (xs @ ys) = scanProducts sku ys"
proof (induction xs)
  case Nil
  then show ?case by simp
next
  case (Cons x xs)
  then show ?case
    by (cases x) (auto split: sum.splits option.splits)
qed

text \<open>The scans return at the first variant whose SKU matches, with its price.\<close>

lemma scanVariants_first_match:
  assumes "\<forall>u \<in> set us. \<exists>t. vSkuOf u = Inr t \<and> t \<noteq> sku"
    and "vSkuOf v = Inr sku" and "sku \<noteq> []"
  shows "scanVariants sku (us @ v # ws) =
    Inr (Some (firstPrice [pv_price v, retail_price v, default_price v, variant_price v]))"
  using assms by (induction us) auto

lemma scanProducts_first_match:
  assumes "scanProducts sku ps = Inr None"
    and "\<forall>u \<in> set us. \<exists>t. vSkuOf u = Inr t \<and> t \<noteq> sku"
    and "vSkuOf v = Inr sku" and "sku \<noteq> []"
  shows "scanProducts sku (ps @ Some (us @ v # ws) # qs) =
    Inr (Some (firstPrice [pv_price v, retail_price v, default_price v, variant_price v]))"
  using scanProducts_append [OF assms(1), of "Some (us @ v # ws) # qs"]
    scanVariants_first_match [OF assms(2,3,4), of ws]
  by simp

lemma firstPrice_first_populated:
  assumes "\<forall>q \<in> set pre. \<not> truthy q \<or> isNaN (parseFloatV q)"
    and "truthy pval" and "\<not> isNaN (parseFloatV pval)"
  shows "firstPrice (pre @ pval # post) = parseFloatV pval"
  using assms by (induction pre) auto

lemma scan_otherProduct: "scanProducts ''TARGET'' (replicate n otherProduct) = Inr None"
  by (induction n) (simp_all add: otherProduct_def vSkuOf_def orElse_def trim_def isSpace_def)

lemma parseFloat_12_50: "parseFloat ''12.50'' = Fin (25 / 2)"
  by (simp add: parse_simps fl_eval)

lemma scan_targetProduct: "scanProducts ''TARGET'' [targetProduct] = Inr (Some (Fin (25 / 2)))"
  by (simp add: targetProduct_def vSkuOf_def orElse_def trim_def isSpace_def isNaN_def truthyN_def
      parseFloat_12_50)

text \<open>
  Claim C6. The remote-catalog lookup terminates when a page ends it: it stops paginating
  at the first page that is shorter than the page size or empty (or whose request or scan
  fails), or on whose scan a SKU matches; it has then requested exactly the pages up to that
  one, and returns that page's result. When the scan of that page meets a variant with the
  SKU, the result is the price of the first such variant, and that price is the first
  populated one (truthy, and a number for \<^verbatim>\<open>parseFloat\<close>) of its fields \<^verbatim>\<open>price\<close>,
  \<^verbatim>\<open>retail_price\<close>, \<^verbatim>\<open>default_price\<close>, \<^verbatim>\<open>variant_price\<close>. In the witness the
  catalog has full pages of 50 products for ever and the match is on page 3: the pages
  requested are 1, 2 and 3, and the result is the matched variant's \<^verbatim>\<open>retail_price\<close>.
\<close>

theorem lookup_stops_at_first_ending_page:
  assumes "configured (PRINTIFY_TOKEN cfg)" and "configured (PRINTIFY_SHOP_ID cfg)"
    and "1 \<le> n"
    and "pageStops sku (remote n)"
    and "\<forall>k. 1 \<le> k \<and> k < n \<longrightarrow> \<not> pageStops sku (remote k)"
  shows "getPrintifyVariantCostBySku cfg remote sku
      = Some (pageResult sku (remote n), [1..<Suc n])
    \<and> (remote n = Page (ps @ Some (us @ v # ws) # qs) \<and> scanProducts sku ps = Inr None
        \<and> (\<forall>u \<in> set us. \<exists>t. vSkuOf u = Inr t \<and> t \<noteq> sku) \<and> vSkuOf v = Inr sku \<and> sku \<noteq> []
       \<longrightarrow> pageResult sku (remote n)
           = firstPrice [pv_price v, retail_price v, default_price v, variant_price v])
    \<and> ((\<forall>q \<in> set pre. \<not> truthy q \<or> isNaN (parseFloatV q)) \<and> truthy pval
        \<and> \<not> isNaN (parseFloatV pval)
       \<longrightarrow> firstPrice (pre @ pval # post) = parseFloatV pval)"
proof (intro conjI impI)
  from assms(3) obtain m where n: "n = 1 + m"
    by (metis le_iff_add)
  have "\<forall>k<m. \<not> pageStops sku (remote (1 + k))"
    using assms(5) n by simp
  with assms(4) have "scanPages remote sku 1 []
      = Some (pageResult sku (remote (1 + m)), [] @ [1..<Suc (1 + m)])"
    unfolding n by (rule scanPages_first_stop)
  with assms(1,2) show "getPrintifyVariantCostBySku cfg remote sku
      = Some (pageResult sku (remote n), [1..<Suc n])"
    by (simp add: getPrintifyVariantCostBySku_def n)
next
  assume m: "remote n = Page (ps @ Some (us @ v # ws) # qs) \<and> scanProducts sku ps = Inr None
      \<and> (\<forall>u \<in> set us. \<exists>t. vSkuOf u = Inr t \<and> t \<noteq> sku) \<and> vSkuOf v = Inr sku \<and> sku \<noteq> []"
  then have "scanProducts sku (ps @ Some (us @ v # ws) # qs)
      = Inr (Some (firstPrice [pv_price v, retail_price v, default_price v, variant_price v]))"
    by (intro scanProducts_first_match) simp_all
  with m show "pageResult sku (remote n)
      = firstPrice [pv_price v, retail_price v, default_price v, variant_price v]"
    by (simp add: pageResult_def)
next
  assume "(\<forall>q \<in> set pre. \<not> truthy q \<or> isNaN (parseFloatV q)) \<and> truthy pval
      \<and> \<not> isNaN (parseFloatV pval)"
  then show "firstPrice (pre @ pval # post) = parseFloatV pval"
    by (intro firstPrice_first_populated) simp_all
qed

theorem lookup_stops_at_first_ending_page_witness:
  "pageStops ''TARGET'' (threePages 3)
   \<and> \<not> pageStops ''TARGET'' (threePages 1)
   \<and> \<not> pageStops ''TARGET'' (threePages 2)
   \<and> \<not> pageStops ''TARGET'' (threePages 4)
   \<and> getPrintifyVariantCostBySku (shopConfig ''none'') threePages ''TARGET''
      = Some (Fin (25 / 2), [1, 2, 3])
   \<and> firstPrice [JUndef, JStr ''12.50'', JNum (Fin 9), JUndef] = Fin (25 / 2)"
proof -
  let ?u = "\<lparr>pv_sku = JUndef, offer_id = JStr ''ANOTHER'', pv_price = JNum (Fin 500),
      retail_price = JUndef, default_price = JUndef, variant_price = JUndef\<rparr>"
  let ?v = "\<lparr>pv_sku = JStr '' TARGET '', offer_id = JUndef, pv_price = JUndef,
      retail_price = JStr ''12.50'', default_price = JNum (Fin 9), variant_price = JUndef\<rparr>"
  have full: "\<not> pageStops ''TARGET'' (threePages k)" if "k \<noteq> 3" for k
    using that by (simp add: pageStops_def threePages_def scan_otherProduct perPage_def)
  have page3: "threePages 3 = Page (replicate 49 otherProduct @ Some ([?u] @ ?v # []) # [])"
    by (simp add: threePages_def targetProduct_def)
  have scan3: "scanProducts ''TARGET'' (replicate 49 otherProduct @ [targetProduct])
      = Inr (Some (Fin (25 / 2)))"
    using scanProducts_append [OF scan_otherProduct, of 49 "[targetProduct]"]
    by (simp only: scan_targetProduct)
  have stop: "pageStops ''TARGET'' (threePages 3)"
    by (simp add: pageStops_def threePages_def scan3)
  have before: "\<forall>k. 1 \<le> k \<and> k < 3 \<longrightarrow> \<not> pageStops ''TARGET'' (threePages k)"
    using full by simp
  have cfg: "configured (PRINTIFY_TOKEN (shopConfig ''none''))"
      "configured (PRINTIFY_SHOP_ID (shopConfig ''none''))"
    by (simp_all add: configured_def shopConfig_def)
  have u: "\<forall>u \<in> set [?u]. \<exists>t. vSkuOf u = Inr t \<and> t \<noteq> ''TARGET''"
    by (simp add: vSkuOf_def orElse_def trim_def isSpace_def)
  have v: "vSkuOf ?v = Inr ''TARGET''"
    by (simp add: vSkuOf_def orElse_def trim_def isSpace_def)
  have pf: "parseFloatV (JStr ''12.50'') = Fin (25 / 2)"
    by (simp add: parseFloat_12_50)
  have pre: "\<forall>q \<in> set [JUndef]. \<not> truthy q \<or> isNaN (parseFloatV q)"
    by simp
  note inst = lookup_stops_at_first_ending_page [OF cfg _ stop before,
      of "replicate 49 otherProduct" "[?u]" ?v "[]" "[]" "[JUndef]" "JStr ''12.50''"
        "[JNum (Fin 9), JUndef]"]
  have three: "[1..<Suc 3] = [1, 2, 3::nat]"
    by code_simp
  have price: "firstPrice [JUndef, JStr ''12.50'', JNum (Fin 9), JUndef] = Fin (25 / 2)"
    using inst pre pf by (simp add: isNaN_def)
  have res: "pageResult ''TARGET'' (threePages 3) = Fin (25 / 2)"
    using inst page3 scan_otherProduct [of 49] u v price by simp
  have run: "getPrintifyVariantCostBySku (shopConfig ''none'') threePages ''TARGET''
      = Some (pageResult ''TARGET'' (threePages 3), [1..<Suc 3])"
    using inst by simp
  then have "getPrintifyVariantCostBySku (shopConfig ''none'') threePages ''TARGET''
      = Some (Fin (25 / 2), [1, 2, 3])"
    by (simp only: res three)
  then show ?thesis
    using stop full [of 1] full [of 2] full [of 4] price by simp
qed

section \<open>The counters of a pass\<close>

text \<open>One run of the loop body adds one to exactly one counter.\<close>

lemma processVariant_one_counter:
  "processVariant cfg tab remote put p v st = Some st' \<Longrightarrow>
   (updated st' = updated st + 1 \<and> skipped st' = skipped st \<and> errors st' = errors st)
   \<or> (updated st' = updated st \<and> skipped st' = skipped st + 1 \<and> errors st' = errors st)
   \<or> (updated st' = updated st \<and> skipped st' = skipped st \<and> errors st' = errors st + 1)"
  by (auto simp add: processVariant_def tryVariant_def Let_def
      split: option.splits sum.splits if_splits)

lemma processVariant_counts:
  "processVariant cfg tab remote put p v st = Some st' \<Longrightarrow>
   updated st' + skipped st' + errors st' = Suc (updated st + skipped st + errors st)"
  using processVariant_one_counter [of cfg tab remote put p v st st'] by auto

lemma forVariants_counts:
  "forVariants cfg tab remote put p vs st = Some st' \<Longrightarrow>
   updated st' + skipped st' + errors st' = updated st + skipped st + errors st + length vs"
proof (induction vs arbitrary: st)
  case Nil
  then show ?case by simp
next
  case (Cons v vs)
  then show ?case
    by (auto split: option.splits dest!: processVariant_counts)
qed

lemma forProducts_counts:
  "forProducts cfg tab remote put ps st = Some st' \<Longrightarrow>
   updated st' + skipped st' + errors st'
     = updated st + skipped st + errors st + totalVariants ps"
proof (induction ps arbitrary: st)
  case Nil
  then show ?case by (simp add: totalVariants_def)
next
  case (Cons p ps)
  then show ?case
    by (auto simp add: totalVariants_def split: option.splits dest!: forVariants_counts)
qed

text \<open>A pass returns when every Printify lookup does.\<close>

lemma supplierCostOf_returns:
  "getPrintifyVariantCostBySku cfg remote s \<noteq> None \<Longrightarrow>
   \<exists>c. supplierCostOf cfg tab remote p s = Some c"
  by (cases "getPrintifyVariantCostBySku cfg remote s") (simp_all add: supplierCostOf_def)

lemma processVariant_returns:
  assumes "\<forall>s. getPrintifyVariantCostBySku cfg remote s \<noteq> None"
  shows "\<exists>st'. processVariant cfg tab remote put p v st = Some st'"
proof (cases "trimV (orElse (v_sku v) (JStr []))")
  case (Inl e)
  then show ?thesis by (simp add: processVariant_def tryVariant_def)
next
  case (Inr s)
  from assms have "getPrintifyVariantCostBySku cfg remote s \<noteq> None" by blast
  then obtain c where "supplierCostOf cfg tab remote p s = Some c"
    using supplierCostOf_returns by blast
  with Inr show ?thesis
    by (simp add: processVariant_def tryVariant_def Let_def)
qed

lemma forVariants_returns:
  "\<forall>s. getPrintifyVariantCostBySku cfg remote s \<noteq> None \<Longrightarrow>
   \<exists>st'. forVariants cfg tab remote put p vs st = Some st'"
proof (induction vs arbitrary: st)
  case Nil
  then show ?case by simp
next
  case (Cons v vs)
  from Cons.prems obtain st1 where "processVariant cfg tab remote put p v st = Some st1"
    using processVariant_returns by blast
  with Cons show ?case by simp
qed

lemma forProducts_returns:
  "\<forall>s. getPrintifyVariantCostBySku cfg remote s \<noteq> None \<Longrightarrow>
   \<exists>st'. forProducts cfg tab remote put ps st = Some st'"
proof (induction ps arbitrary: st)
  case Nil
  then show ?case by simp
next
  case (Cons p ps)
  from Cons.prems obtain st1 where
    "forVariants cfg tab remote put p (variantsOf p) st = Some st1"
    using forVariants_returns by blast
  with Cons show ?case by simp
qed

lemma demo_run:
  "runPricingJob (shopConfig ''none'') feedSKU123 threePages (putExcept 4) demoProducts
   = Some \<lparr>updated = 1, skipped = 1, errors = 2,
       attempts = [(7, lit (447 / 100)), (4, lit (1332 / 100))]\<rparr>"
  by code_simp

text \<open>
  Claim C9. Every pricing pass counts each processed variant in exactly one of the three
  outcome counters: one run of the loop body adds one to exactly one of \<open>updated\<close>,
  \<open>skipped\<close> and \<open>errors\<close>, so the outcome a pass returns satisfies
  \<open>updated + skipped + errors =\<close> the number of variants of the fetched products. A pass
  does return when every Printify lookup returns.
\<close>

theorem counters_partition_variants:
  "(processVariant cfg tab remote put p v st0 = Some st1 \<longrightarrow>
      (updated st1 = updated st0 + 1 \<and> skipped st1 = skipped st0 \<and> errors st1 = errors st0)
      \<or> (updated st1 = updated st0 \<and> skipped st1 = skipped st0 + 1 \<and> errors st1 = errors st0)
      \<or> (updated st1 = updated st0 \<and> skipped st1 = skipped st0 \<and> errors st1 = errors st0 + 1))
   \<and> (runPricingJob cfg f remote put products = Some st \<longrightarrow>
      updated st + skipped st + errors st = totalVariants products)
   \<and> ((\<forall>s. getPrintifyVariantCostBySku cfg remote s \<noteq> None) \<longrightarrow>
      (\<exists>st'. runPricingJob cfg f remote put products = Some st'))"
proof (intro conjI impI)
  assume "processVariant cfg tab remote put p v st0 = Some st1"
  then show "(updated st1 = updated st0 + 1 \<and> skipped st1 = skipped st0 \<and> errors st1 = errors st0)
      \<or> (updated st1 = updated st0 \<and> skipped st1 = skipped st0 + 1 \<and> errors st1 = errors st0)
      \<or> (updated st1 = updated st0 \<and> skipped st1 = skipped st0 \<and> errors st1 = errors st0 + 1)"
    by (rule processVariant_one_counter)
next
  assume "runPricingJob cfg f remote put products = Some st"
  then show "updated st + skipped st + errors st = totalVariants products"
    using forProducts_counts [of cfg "loadAliExpressCSV f" remote put products
        "\<lparr>updated = 0, skipped = 0, errors = 0, attempts = []\<rparr>" st]
    by (simp add: runPricingJob_def)
next
  assume "\<forall>s. getPrintifyVariantCostBySku cfg remote s \<noteq> None"
  then show "\<exists>st'. runPricingJob cfg f remote put products = Some st'"
    using forProducts_returns [of cfg remote "loadAliExpressCSV f" put products]
    by (simp add: runPricingJob_def)
qed

lemma demo_step:
  "processVariant (shopConfig ''none'') (loadAliExpressCSV feedSKU123) threePages
     (putExcept 4) (genericProduct [])
     \<lparr>v_id = 5, v_sku = JNum (Fin 12), v_price = JStr ''1.00''\<rparr> newJob
   = Some \<lparr>updated = 0, skipped = 0, errors = 1, attempts = []\<rparr>"
  by (simp add: processVariant_def tryVariant_def orElse_def truthyN_def newJob_def)

lemma emptyCatalog_returns: "getPrintifyVariantCostBySku cfg emptyCatalog s \<noteq> None"
  by (simp add: getPrintifyVariantCostBySku_def scanPages_stops pageStops_def emptyCatalog_def)

theorem counters_partition_variants_witness:
  "processVariant (shopConfig ''none'') (loadAliExpressCSV feedSKU123) threePages
     (putExcept 4) (genericProduct [])
     \<lparr>v_id = 5, v_sku = JNum (Fin 12), v_price = JStr ''1.00''\<rparr> newJob
   = Some \<lparr>updated = 0, skipped = 0, errors = 1, attempts = []\<rparr>
   \<and> runPricingJob (shopConfig ''none'') feedSKU123 threePages (putExcept 4) demoProducts
   = Some \<lparr>updated = 1, skipped = 1, errors = 2,
       attempts = [(7, lit (447 / 100)), (4, lit (1332 / 100))]\<rparr>
   \<and> totalVariants demoProducts = 4
   \<and> (\<forall>s. getPrintifyVariantCostBySku (shopConfig ''none'') emptyCatalog s \<noteq> None)
   \<and> (\<exists>st'. runPricingJob (shopConfig ''none'') feedSKU123 emptyCatalog putAlways
        demoProducts = Some st')"
proof -
  let ?out = "\<lparr>updated = 1, skipped = 1, errors = 2,
      attempts = [(7, lit (447 / 100)), (4, lit (1332 / 100))]\<rparr>"
  have total: "totalVariants demoProducts = 4"
    using demo_run
      counters_partition_variants [of "shopConfig ''none''" "loadAliExpressCSV feedSKU123"
        threePages "putExcept 4" "genericProduct []"
        "\<lparr>v_id = 5, v_sku = JNum (Fin 12), v_price = JStr ''1.00''\<rparr>" newJob
        "\<lparr>updated = 0, skipped = 0, errors = 1, attempts = []\<rparr>"
        feedSKU123 demoProducts ?out]
    by simp
  have returns: "\<exists>st'. runPricingJob (shopConfig ''none'') feedSKU123 emptyCatalog putAlways
      demoProducts = Some st'"
    using emptyCatalog_returns
      counters_partition_variants [of "shopConfig ''none''" "loadAliExpressCSV feedSKU123"
        emptyCatalog putAlways "genericProduct []"
        "\<lparr>v_id = 5, v_sku = JNum (Fin 12), v_price = JStr ''1.00''\<rparr>" newJob
        "\<lparr>updated = 0, skipped = 0, errors = 1, attempts = []\<rparr>"
        feedSKU123 demoProducts ?out]
    by blast
  show ?thesis
    using demo_step demo_run total returns emptyCatalog_returns by blast
qed

section \<open>Sample values of the arithmetic\<close>

text \<open>
  Values the binary64 arithmetic gives where it differs from exact arithmetic on the
  decimal values: the double \<open>2.135\<close> lies below the decimal \<open>2.135\<close> and rounds down;
  the quotients \<open>9.61 / 0.961\<close> and \<open>576.60 / 0.961\<close> come out just above \<open>10\<close> and just
  below \<open>600\<close>; a decimal with a large exponent overflows, one with a small exponent
  underflows to \<open>0\<close>.
\<close>

lemma roundToTwo_2_135: "roundToTwo (lit (2135 / 1000)) = lit (213 / 100)"
  by (simp add: round_eval)

lemma price_of_9_31: "computePriceFromCost ''.99'' (Num (lit (931 / 100))) = lit (1099 / 100)"
  by (simp add: computePriceFromCost_def round_eval)

lemma price_of_576_30: "computePriceFromCost ''.95'' (Num (lit (57630 / 100))) = lit (59995 / 100)"
  by (simp add: computePriceFromCost_def round_eval)

lemma price_of_1_713295:
  "computePriceFromCost ''none'' (Num (lit (1713295 / 1000000))) = lit (209 / 100)"
  by (simp add: computePriceFromCost_def round_eval)

lemma parseFloat_overflow: "parseFloat ''1e400'' = PInf"
proof -
  have "parseFloat ''1e400'' = d64 (10 ^ 400)"
    by (simp add: parse_simps)
  moreover have "(2::rat) ^ 1024 \<le> 10 ^ 400"
    by simp
  ultimately show ?thesis by (simp only: d64_overflow)
qed

lemma parseFloat_underflow: "parseFloat ''1e-400'' = Fin 0"
proof -
  have "parseFloat ''1e-400'' = d64 (1 / 10 ^ 400)"
    by (simp add: parse_simps)
  moreover have "\<bar>1 / 10 ^ 400 :: rat\<bar> \<le> 1 / 2 ^ 1075"
    by simp
  ultimately show ?thesis by (simp only: d64_underflow)
qed

end
